theory Spec2Isabelle
  imports Complex_Main "HOL-Library.Word" "HOL-Library.Sublist"
begin

unbundle bit_operations_syntax

section \<open>Point ingestion: tokenize and read_pc_data\<close>

text \<open>
  Coordinates are values of an arbitrary type \<open>'f\<close> (the source's \<open>float\<close>): ingestion only
  moves them around. \<open>std::stof\<close> is a parameter \<open>stof\<close> of the model; \<open>None\<close> stands for
  the \<open>std::invalid_argument\<close> (or \<open>std::out_of_range\<close>) it throws.

  A component of a \<open>float3\<close> is \<open>Some v\<close> when the program has stored the value \<open>v\<close>
  there and \<open>None\<close> when its content is indeterminate: memory from \<open>new float3[lines]\<close>
  that was never written, or the result of reading \<open>vcoords[i]\<close> with
  \<open>i \<ge> vcoords.size()\<close>, for which C++ defines no value.

  \<open>dim\<close> counts fields: an \<open>int\<close> that starts at 0 and only grows, a natural number
  here (\<open>assert(dim > 0)\<close> always holds, since the last field is counted without
  condition). Positions in the string are natural numbers too.
\<close>

type_synonym 'f float3 = "'f option \<times> 'f option \<times> 'f option"

type_synonym 'f ndarray = "'f float3 list list"

datatype fault =
    StofThrow         \<comment> \<open>\<open>std::stof\<close> threw; nothing on the ingestion path catches it\<close>
  | NoProgress        \<comment> \<open>the scanning loop of \<open>tokenize\<close> never ends (empty delimiter)\<close>
  | WriteOutOfRange   \<comment> \<open>\<open>ndpoints[batch][lineId]\<close> outside the allocated arrays\<close>
  | AssertFail        \<comment> \<open>\<open>assert(0)\<close> in a build with assertions enabled\<close>

definition make_float3 :: "'f option \<Rightarrow> 'f option \<Rightarrow> 'f option \<Rightarrow> 'f float3" where
  "make_float3 x y z = (x, y, z)"

definition vget :: "'f list \<Rightarrow> nat \<Rightarrow> 'f option" where
  \<comment> \<open>\<open>vcoords[i]\<close> on a \<open>std::vector\<close>: a value inside the vector, indeterminate beyond it\<close>
  "vget v i = (if i < length v then Some (v ! i) else None)"

fun find_at :: "string \<Rightarrow> string \<Rightarrow> nat \<Rightarrow> nat option" where
  "find_at del [] i = (if del = [] then Some i else None)"
| "find_at del (c # cs) i = (if prefix del (c # cs) then Some i else find_at del cs (Suc i))"

definition find_str :: "string \<Rightarrow> string \<Rightarrow> nat \<Rightarrow> nat option" where
  \<comment> \<open>\<open>s.find(del, pos)\<close>; \<open>None\<close> is \<open>npos\<close>, which the source keeps as \<open>-1\<close>\<close>
  "find_str s del pos = (if pos \<le> length s then find_at del (drop pos s) pos else None)"

definition substr :: "string \<Rightarrow> nat \<Rightarrow> nat \<Rightarrow> string" where
  "substr s start n = take n (drop start s)"

lemma find_at_bounds:
  "find_at del cs i = Some e \<Longrightarrow> i \<le> e \<and> e \<le> i + length cs"
  by (induction cs arbitrary: i) (fastforce split: if_splits)+

lemma find_at_lt:
  "find_at del cs i = Some e \<Longrightarrow> del \<noteq> [] \<Longrightarrow> e < i + length cs"
  by (induction cs arbitrary: i) (fastforce split: if_splits)+

text \<open>
  The \<open>while (end != -1)\<close> loop of \<open>tokenize\<close>. \<open>keep\<close> is \<open>ndpoints != nullptr\<close>. With an
  empty delimiter \<open>find\<close> returns \<open>start\<close> itself and \<open>start\<close> never advances: the loop
  calls \<open>stof\<close> on the empty string and, should that return, runs for ever.
\<close>

function tok_loop ::
  "(string \<Rightarrow> 'f option) \<Rightarrow> string \<Rightarrow> string \<Rightarrow> bool \<Rightarrow> nat \<Rightarrow> nat \<Rightarrow> 'f list
     \<Rightarrow> fault + (nat \<times> nat \<times> 'f list)" where
  "tok_loop stof s del keep start dm vcoords =
     (case find_str s del start of
        None \<Rightarrow> Inr (start, dm, vcoords)
      | Some e \<Rightarrow>
          (case stof (substr s start (e - start)) of
             None \<Rightarrow> Inl StofThrow
           | Some coord \<Rightarrow>
               if del = [] then Inl NoProgress
               else tok_loop stof s del keep (e + length del) (dm + 1)
                      (if keep then vcoords @ [coord] else vcoords)))"
  by pat_completeness auto
termination
proof (relation "measure (\<lambda>(stof, s, del, keep, start, dm, vcoords). length s - start)")
  show "wf (measure (\<lambda>(stof, s, del, keep, start, dm, vcoords). length s - start))"
    by simp
next
  fix stof :: "string \<Rightarrow> 'f option" and s del :: string and keep :: bool
    and start dm :: nat and vcoords :: "'f list" and e :: nat and coord :: 'f
  assume f: "find_str s del start = Some e" and d: "del \<noteq> []"
  from f have le: "start \<le> length s" and fa: "find_at del (drop start s) start = Some e"
    by (auto simp: find_str_def split: if_splits)
  from find_at_bounds [OF fa] find_at_lt [OF fa d] have "start \<le> e" "e < length s"
    using le by auto
  then show "((stof, s, del, keep, e + length del, dm + 1,
                if keep then vcoords @ [coord] else vcoords),
              (stof, s, del, keep, start, dm, vcoords))
             \<in> measure (\<lambda>(stof, s, del, keep, start, dm, vcoords). length s - start)"
    using d by (cases del) auto
qed

declare tok_loop.simps [simp del]

definition batch_point :: "'f list \<Rightarrow> nat \<Rightarrow> 'f float3" where
  \<comment> \<open>\<open>make_float3(vcoords[batch*3], vcoords[batch*3+1], vcoords[batch*3+2])\<close>\<close>
  "batch_point vcoords batch =
     make_float3 (vget vcoords (batch * 3)) (vget vcoords (batch * 3 + 1))
       (vget vcoords (batch * 3 + 2))"

text \<open>
  The loop \<open>for (batch = 0; batch < dim/3; batch++)\<close> over the list of its batch numbers,
  storing into \<open>ndpoints[batch][lineId]\<close>.
\<close>

fun store_batches :: "'f list \<Rightarrow> nat \<Rightarrow> nat list \<Rightarrow> 'f ndarray \<Rightarrow> fault + 'f ndarray" where
  "store_batches vcoords lineId [] nd = Inr nd"
| "store_batches vcoords lineId (batch # bs) nd =
     (if batch < length nd \<and> lineId < length (nd ! batch)
      then store_batches vcoords lineId bs
             (nd[batch := (nd ! batch)[lineId := batch_point vcoords batch]])
      else Inl WriteOutOfRange)"

definition pad3 :: "nat \<Rightarrow> nat" where
  \<comment> \<open>\<open>if ((dim % 3) != 0) dim = (dim/3+1)*3;\<close>\<close>
  "pad3 d = (if d mod 3 \<noteq> 0 then (d div 3 + 1) * 3 else d)"

text \<open>
  The scanning part of \<open>tokenize\<close>: the loop, then the last field
  \<open>s.substr(start, end - start)\<close> with \<open>end = -1\<close>, which is the rest of the string.
  It yields \<open>dim\<close> before padding and \<open>vcoords\<close>.
\<close>

definition scan_fields ::
  "(string \<Rightarrow> 'f option) \<Rightarrow> string \<Rightarrow> string \<Rightarrow> bool \<Rightarrow> fault + (nat \<times> 'f list)" where
  "scan_fields stof s del keep =
     (case tok_loop stof s del keep 0 0 [] of
        Inl f \<Rightarrow> Inl f
      | Inr (start, dim0, vc0) \<Rightarrow>
          (case stof (drop start s) of
             None \<Rightarrow> Inl StofThrow
           | Some coord \<Rightarrow> Inr (dim0 + 1, if keep then vc0 @ [coord] else vc0)))"

definition tokenize ::
  "(string \<Rightarrow> 'f option) \<Rightarrow> string \<Rightarrow> string \<Rightarrow> 'f ndarray option \<Rightarrow> 32 word
     \<Rightarrow> fault + (nat \<times> 'f ndarray option)" where
  "tokenize stof s del ndpoints lineId =
     (case scan_fields stof s del (ndpoints \<noteq> None) of
        Inl f \<Rightarrow> Inl f
      | Inr (dim1, vcoords) \<Rightarrow>
          (let dm = pad3 dim1
           in case ndpoints of
                None \<Rightarrow> Inr (dm, None)
              | Some nd \<Rightarrow>
                  (case store_batches vcoords (unat lineId) [0..<dm div 3] nd of
                     Inl f \<Rightarrow> Inl f
                   | Inr nd' \<Rightarrow> Inr (dm, Some nd'))))"

text \<open>
  The input file is given by the lines that successive \<open>file.getline(line, 1024)\<close> calls
  meet. A line of 1024 or more characters does not fit the buffer: \<open>getline\<close> sets
  \<open>failbit\<close> and the \<open>while\<close> loop ends there, in both passes alike. Lines are
  taken to hold no NUL character, so that \<open>std::string str(line)\<close> is the line.
  The counter \<open>lines\<close> is an \<open>unsigned int\<close>.
\<close>

definition getlines :: "string list \<Rightarrow> string list" where
  "getlines rows = takeWhile (\<lambda>l. length l < 1024) rows"

text \<open>First pass: count the lines; the first line (\<open>lines == 0\<close>) fixes \<open>dim\<close>.\<close>

fun count_pass ::
  "(string \<Rightarrow> 'f option) \<Rightarrow> string list \<Rightarrow> 32 word \<Rightarrow> nat \<Rightarrow> fault + (32 word \<times> nat)" where
  "count_pass stof [] lines dm = Inr (lines, dm)"
| "count_pass stof (l # ls) lines dm =
     (if lines = 0
      then (case tokenize stof l '','' None 0 of
              Inl f \<Rightarrow> Inl f
            | Inr (d, _) \<Rightarrow> count_pass stof ls (lines + 1) d)
      else count_pass stof ls (lines + 1) dm)"

text \<open>Second pass: every line is tokenized into row \<open>lines\<close> of the batch arrays.\<close>

fun fill_pass ::
  "(string \<Rightarrow> 'f option) \<Rightarrow> string list \<Rightarrow> 32 word \<Rightarrow> 'f ndarray \<Rightarrow> fault + 'f ndarray" where
  "fill_pass stof [] lines nd = Inr nd"
| "fill_pass stof (l # ls) lines nd =
     (case tokenize stof l '','' (Some nd) lines of
        Inl f \<Rightarrow> Inl f
      | Inr (_, None) \<Rightarrow> fill_pass stof ls (lines + 1) nd
      | Inr (_, Some nd') \<Rightarrow> fill_pass stof ls (lines + 1) nd')"

definition alloc_ndpoints :: "nat \<Rightarrow> 32 word \<Rightarrow> 'f ndarray" where
  \<comment> \<open>\<open>new float3*[dim/3]\<close>, each \<open>new float3[lines]\<close>: uninitialised\<close>
  "alloc_ndpoints dm lines = replicate (dm div 3) (replicate (unat lines) (None, None, None))"

definition read_lines ::
  "(string \<Rightarrow> 'f option) \<Rightarrow> string list \<Rightarrow> fault + ('f ndarray \<times> 32 word \<times> nat)" where
  "read_lines stof rows =
     (case count_pass stof rows 0 0 of
        Inl f \<Rightarrow> Inl f
      | Inr (lines, dm) \<Rightarrow>
          (case fill_pass stof rows 0 (alloc_ndpoints dm lines) of
             Inl f \<Rightarrow> Inl f
           | Inr nd \<Rightarrow> Inr (nd, lines, dm)))"

text \<open>
  \<open>read_pc_data\<close> returns the arrays, \<open>*N\<close> and \<open>*d\<close>, and whether the diagnostic
  \<open>Could not read the frame data...\<close> went to \<open>stderr\<close>. \<open>fs\<close> maps a path to the lines
  of the file, \<open>None\<close> when it cannot be opened. \<open>ndebug\<close> tells whether the program was
  compiled with \<open>NDEBUG\<close>: then \<open>assert(0)\<close> is empty, and every \<open>getline\<close> on the
  stream that failed to open fails at once.
\<close>

definition read_pc_data ::
  "bool \<Rightarrow> (string \<Rightarrow> 'f option) \<Rightarrow> (string \<Rightarrow> string list option) \<Rightarrow> string
     \<Rightarrow> bool \<times> (fault + ('f ndarray \<times> 32 word \<times> nat))" where
  "read_pc_data ndebug stof fs data_file =
     (case fs data_file of
        None \<Rightarrow> (True, if ndebug then read_lines stof [] else Inl AssertFail)
      | Some rows \<Rightarrow> (False, read_lines stof (getlines rows)))"

section \<open>Runs: events and stages\<close>

text \<open>
  What a run does that the properties speak of. The lines that \<open>main\<close> prints about
  \<open>dim\<close>, \<open>batch\<close>, \<open>numPrims\<close>, the radius, \<open>K\<close> and the device, and the
  timings, are left out.
\<close>

datatype 'd event =
    UnknownOption string                  \<comment> \<open>\<open>Unknown option '...'\<close> on \<open>stderr\<close>\<close>
  | Usage                                 \<comment> \<open>the usage message of \<open>printUsageAndExit\<close>\<close>
  | CouldNotRead                          \<comment> \<open>\<open>Could not read the frame data...\<close>\<close>
  | BuildGas nat                          \<comment> \<open>\<open>buildGas\<close> has built \<open>gas_handle[b]\<close>\<close>
  | Launch nat                            \<comment> \<open>\<open>optixLaunch\<close> with \<open>params.batchId\<close>\<close>
  | ReadPoints nat "32 word" "32 word"    \<comment> \<open>\<open>ndpoints[b][p] - ndpoints[b][q]\<close>\<close>
  | PrintIndex "32 word"                  \<comment> \<open>\<open>std::cout << p << " "\<close>\<close>
  | EndRow                                \<comment> \<open>the newline that ends a row\<close>
  | SanityDone
  | AvgNeighbors "32 word"
  | AvgWrong "32 word"
  | AvgWrongDist 'd
  | CaughtException                       \<comment> \<open>\<open>Caught exception: ...\<close>\<close>

text \<open>
  The calls into CUDA and OptiX are outside this file. Each group of calls is a stage
  that either succeeds or throws (\<open>CUDA_CHECK\<close>, \<open>OPTIX_CHECK\<close>); \<open>fails\<close> says which
  do. An exception inside the \<open>try\<close> block is caught by \<open>main\<close>, which prints it and
  returns 1. The bounding boxes that \<open>createGeometry\<close> hands to the build
  (\<open>sphere_bound\<close>: centre minus and plus the radius) are input of the external build
  only and are left out.
\<close>

datatype stage =
    DeviceSetup
  | CreateContext
  | UploadPoints nat
  | AccelBuild nat
  | CreatePipeline
  | CreateSBT
  | AllocOutput
  | PrepareLaunch
  | LaunchSync
  | HostCopy
  | Cleanup

section \<open>The result buffer and the launch\<close>

text \<open>
  The output buffer is device memory of \<open>numPrims * knn\<close> elements of four bytes, the
  product taken in \<open>unsigned int\<close>. \<open>launchSubframe\<close> sets
  \<open>numPrims * knn * sizeof(unsigned int)\<close> bytes of it to \<open>0xFF\<close>, then launches the
  device program, which writes \<open>unsigned int\<close> slots of it; \<open>main\<close> reads the slots
  back through \<open>getHostPointer\<close>.
\<close>

definition UINT_MAX :: "32 word" where
  "UINT_MAX = 0xFFFFFFFF"

definition cudaMemset :: "8 word list \<Rightarrow> 8 word \<Rightarrow> nat \<Rightarrow> 8 word list" where
  \<comment> \<open>sets the first \<open>count\<close> bytes of the device memory to \<open>v\<close>\<close>
  "cudaMemset dev v count = replicate (min count (length dev)) v @ drop count dev"

definition word_of4 :: "8 word \<Rightarrow> 8 word \<Rightarrow> 8 word \<Rightarrow> 8 word \<Rightarrow> 32 word" where
  "word_of4 b0 b1 b2 b3 =
     ucast b0 OR push_bit 8 (ucast b1) OR push_bit 16 (ucast b2) OR push_bit 24 (ucast b3)"

fun words_of :: "8 word list \<Rightarrow> 32 word list" where
  \<comment> \<open>the bytes of the buffer read as an \<open>unsigned int\<close> array\<close>
  "words_of (b0 # b1 # b2 # b3 # bs) = word_of4 b0 b1 b2 b3 # words_of bs"
| "words_of _ = []"

definition alloc_output :: "(nat \<Rightarrow> 8 word) \<Rightarrow> 32 word \<Rightarrow> 8 word list" where
  \<comment> \<open>the output buffer of \<open>width\<close> elements of four bytes; \<open>raw\<close> is what the fresh
      device memory happens to hold\<close>
  "alloc_output raw width = map raw [0..<4 * unat width]"

definition optixLaunch :: "(nat \<times> 32 word) list \<Rightarrow> 32 word list \<Rightarrow> 32 word list" where
  \<comment> \<open>the device program is not part of this file: its effect on the frame buffer is the
      sequence of slot writes it performs\<close>
  "optixLaunch writes fb = foldl (\<lambda>b (i, v). b[i := v]) fb writes"

text \<open>
  \<open>launchSubframe\<close>: the \<open>cudaMemsetAsync\<close>, the launch parameters with
  \<open>batchId = batch\<close>, \<open>optixLaunch\<close>, and the synchronisation. It yields the content
  of the buffer after the launch, or nothing when one of its calls threw.
\<close>

definition launchSubframe ::
  "(stage \<Rightarrow> bool) \<Rightarrow> (nat \<Rightarrow> (nat \<times> 32 word) list) \<Rightarrow> 8 word list \<Rightarrow> 32 word \<Rightarrow> 32 word
     \<Rightarrow> nat \<Rightarrow> 'd event list \<times> 32 word list option" where
  "launchSubframe fails prog output_buffer numPrims knn batch =
     (if fails PrepareLaunch then ([], None)
      else (let frame_buffer =
                  words_of (cudaMemset output_buffer 0xFF (unat (numPrims * knn) * 4));
                written = optixLaunch (prog batch) frame_buffer
            in if fails LaunchSync then ([Launch batch], None)
               else ([Launch batch], Some written)))"

definition slot :: "32 word \<Rightarrow> 32 word \<Rightarrow> 32 word \<Rightarrow> nat" where
  \<comment> \<open>the index \<open>q * state.params.knn + j\<close>, computed in \<open>unsigned int\<close>\<close>
  "slot knn q j = unat (q * knn + j)"

section \<open>Verification\<close>

text \<open>
  The arithmetic of the check is a parameter: subtraction, addition, multiplication and
  comparison on \<open>float\<close>, the square root taken into \<open>double\<close>, addition on \<open>double\<close>
  and the division of a \<open>double\<close> by an \<open>unsigned int\<close>. Whatever is proved for every
  such record holds for IEEE arithmetic too. \<open>ftwo\<close> is the literal 2 of the default
  radius. The difference of two \<open>float3\<close> and \<open>dot\<close> are those of
  \<open>sutil/vec_math.h\<close>: componentwise, and \<open>a.x*b.x + a.y*b.y + a.z*b.z\<close>.
\<close>

record ('f, 'd) arith =
  fsub :: "'f \<Rightarrow> 'f \<Rightarrow> 'f"
  fadd :: "'f \<Rightarrow> 'f \<Rightarrow> 'f"
  fmul :: "'f \<Rightarrow> 'f \<Rightarrow> 'f"
  fgt :: "'f \<Rightarrow> 'f \<Rightarrow> bool"
  fsqrt :: "'f \<Rightarrow> 'd"
  dzero :: 'd
  dadd :: "'d \<Rightarrow> 'd \<Rightarrow> 'd"
  ddiv :: "'d \<Rightarrow> 32 word \<Rightarrow> 'd"
  ftwo :: 'f

record 'd tally =
  totalNeighbors :: "32 word"
  totalWrongNeighbors :: "32 word"
  totalWrongDist :: 'd

definition point_at :: "'f ndarray \<Rightarrow> nat \<Rightarrow> nat \<Rightarrow> ('f \<times> 'f \<times> 'f) option" where
  \<comment> \<open>\<open>state.ndpoints[b][i]\<close> as a value: none outside the arrays, none where a
      component is indeterminate\<close>
  "point_at nd b i =
     (if b < length nd \<and> i < length (nd ! b)
      then (case nd ! b ! i of
              (Some x, Some y, Some z) \<Rightarrow> Some (x, y, z)
            | _ \<Rightarrow> None)
      else None)"

definition sub3 :: "('f, 'd) arith \<Rightarrow> 'f \<times> 'f \<times> 'f \<Rightarrow> 'f \<times> 'f \<times> 'f \<Rightarrow> 'f \<times> 'f \<times> 'f" where
  "sub3 A a b =
     (case (a, b) of ((ax, ay, az), (bx, by, bz)) \<Rightarrow> (fsub A ax bx, fsub A ay by, fsub A az bz))"

definition dot :: "('f, 'd) arith \<Rightarrow> 'f \<times> 'f \<times> 'f \<Rightarrow> 'f \<times> 'f \<times> 'f \<Rightarrow> 'f" where
  "dot A a b =
     (case (a, b) of ((ax, ay, az), (bx, by, bz)) \<Rightarrow>
        fadd A (fadd A (fmul A ax bx) (fmul A ay by)) (fmul A az bz))"

definition dist2 :: "('f, 'd) arith \<Rightarrow> 'f \<times> 'f \<times> 'f \<Rightarrow> 'f \<times> 'f \<times> 'f \<Rightarrow> 'f" where
  "dist2 A p q = (let diff = sub3 A p q in dot A diff diff)"

definition account :: "('f, 'd) arith \<Rightarrow> 'f \<Rightarrow> 'd tally \<Rightarrow> 'f \<Rightarrow> 'd tally" where
  \<comment> \<open>the \<open>else\<close> branch of the inner loop for one entry with squared distance \<open>dists\<close>\<close>
  "account A radius t dists =
     (let t1 = t\<lparr>totalNeighbors := totalNeighbors t + 1\<rparr>
      in if fgt A dists (fmul A radius radius)
         then t1\<lparr>totalWrongNeighbors := totalWrongNeighbors t1 + 1,
                 totalWrongDist := dadd A (totalWrongDist t1) (fsqrt A dists)\<rparr>
         else t1)"

text \<open>
  The inner loop over \<open>j\<close>, with \<open>n\<close> iterations left. \<open>None\<close>: the program read
  outside \<open>data\<close> or outside \<open>ndpoints[0]\<close>, or used an indeterminate coordinate.
\<close>

fun row_loop ::
  "('f, 'd) arith \<Rightarrow> 'f ndarray \<Rightarrow> 'f \<Rightarrow> 32 word list \<Rightarrow> 32 word \<Rightarrow> 32 word \<Rightarrow> nat \<Rightarrow> 32 word
     \<Rightarrow> 'd tally \<times> 'd event list \<Rightarrow> ('d tally \<times> 'd event list) option" where
  "row_loop A nd radius data knn q 0 j st = Some st"
| "row_loop A nd radius data knn q (Suc n) j st =
     (if slot knn q j < length data
      then (let p = data ! slot knn q j
            in if p = UINT_MAX then Some st
               else (case (point_at nd 0 (unat p), point_at nd 0 (unat q)) of
                       (Some pp, Some pq) \<Rightarrow>
                         row_loop A nd radius data knn q n (j + 1)
                           (account A radius (fst st) (dist2 A pp pq),
                            snd st @ [ReadPoints 0 p q, PrintIndex p])
                     | _ \<Rightarrow> None))
      else None)"

fun query_loop ::
  "('f, 'd) arith \<Rightarrow> 'f ndarray \<Rightarrow> 'f \<Rightarrow> 32 word list \<Rightarrow> 32 word \<Rightarrow> nat \<Rightarrow> 32 word
     \<Rightarrow> 'd tally \<times> 'd event list \<Rightarrow> ('d tally \<times> 'd event list) option" where
  "query_loop A nd radius data knn 0 q st = Some st"
| "query_loop A nd radius data knn (Suc n) q st =
     (case row_loop A nd radius data knn q (unat knn) 0 st of
        None \<Rightarrow> None
      | Some (t, out) \<Rightarrow> query_loop A nd radius data knn n (q + 1) (t, out @ [EndRow]))"

definition verify ::
  "('f, 'd) arith \<Rightarrow> 'f ndarray \<Rightarrow> 'f \<Rightarrow> 32 word list \<Rightarrow> 32 word \<Rightarrow> 32 word
     \<Rightarrow> ('d tally \<times> 'd event list) option" where
  "verify A nd radius data knn numPrims =
     query_loop A nd radius data knn (unat numPrims) 0
       (\<lparr>totalNeighbors = 0, totalWrongNeighbors = 0, totalWrongDist = dzero A\<rparr>, [])"

definition report :: "('f, 'd) arith \<Rightarrow> 32 word \<Rightarrow> 'd tally \<Rightarrow> 'd event list option" where
  \<comment> \<open>\<open>None\<close>: the integer division by \<open>numPrims = 0\<close>\<close>
  "report A numPrims t =
     (if numPrims = 0 then None
      else Some ([SanityDone,
                  AvgNeighbors (totalNeighbors t div numPrims),
                  AvgWrong (totalWrongNeighbors t div numPrims)]
                 @ (if totalWrongNeighbors t \<noteq> 0
                    then [AvgWrongDist (ddiv A (totalWrongDist t) (totalWrongNeighbors t))]
                    else [])))"

section \<open>The program\<close>

datatype outcome =
    Exit int       \<comment> \<open>\<open>exit(n)\<close> or \<open>return n\<close> from \<open>main\<close>\<close>
  | Abort          \<comment> \<open>\<open>abort()\<close>: a failed \<open>assert\<close>, or \<open>std::terminate\<close> on an uncaught exception\<close>
  | Undefined      \<comment> \<open>the run reached undefined behaviour\<close>
  | Hang           \<comment> \<open>the run never ends\<close>

record 'f options =
  outfile :: string
  knn :: "32 word"
  radius :: 'f

text \<open>
  The argument loop of \<open>main\<close>, on \<open>argv[1..]\<close>. \<open>printUsageAndExit\<close> ends the program
  with \<open>exit(0)\<close>. \<open>std::stof\<close> on the radius runs outside the \<open>try\<close> block: when it
  throws, the program is terminated. \<open>atoi\<close> never fails.
\<close>

fun parse_args ::
  "(string \<Rightarrow> 'f option) \<Rightarrow> (string \<Rightarrow> 32 word) \<Rightarrow> string list \<Rightarrow> 'f options
     \<Rightarrow> 'd event list \<times> (outcome + 'f options)" where
  "parse_args stof atoi [] st = ([], Inr st)"
| "parse_args stof atoi (arg # rest) st =
     (if arg = ''--help'' \<or> arg = ''-h'' then ([Usage], Inl (Exit 0))
      else if arg = ''--file'' \<or> arg = ''-f'' then
        (case rest of
           [] \<Rightarrow> ([Usage], Inl (Exit 0))
         | v # rest' \<Rightarrow> parse_args stof atoi rest' (st\<lparr>outfile := v\<rparr>))
      else if arg = ''--knn'' \<or> arg = ''-k'' then
        (case rest of
           [] \<Rightarrow> ([Usage], Inl (Exit 0))
         | v # rest' \<Rightarrow> parse_args stof atoi rest' (st\<lparr>knn := atoi v\<rparr>))
      else if arg = ''--radius'' \<or> arg = ''-r'' then
        (case rest of
           [] \<Rightarrow> ([Usage], Inl (Exit 0))
         | v # rest' \<Rightarrow>
             (case stof v of
                None \<Rightarrow> ([], Inl Abort)
              | Some r \<Rightarrow> parse_args stof atoi rest' (st\<lparr>radius := r\<rparr>)))
      else ([UnknownOption arg, Usage], Inl (Exit 0)))"

declare parse_args.simps(2) [simp del]

fun upload_loop :: "(stage \<Rightarrow> bool) \<Rightarrow> nat list \<Rightarrow> bool" where
  "upload_loop fails [] = True"
| "upload_loop fails (b # bs) = (if fails (UploadPoints b) then False else upload_loop fails bs)"

fun build_loop :: "(stage \<Rightarrow> bool) \<Rightarrow> nat list \<Rightarrow> 'd event list \<times> bool" where
  "build_loop fails [] = ([], True)"
| "build_loop fails (b # bs) =
     (if fails (AccelBuild b) then ([], False)
      else (case build_loop fails bs of (ev, ok) \<Rightarrow> (BuildGas b # ev, ok)))"

definition createGeometry :: "(stage \<Rightarrow> bool) \<Rightarrow> nat \<Rightarrow> 'd event list \<times> bool" where
  \<comment> \<open>the two loops over \<open>b < state.batch\<close>; the flag is false when a call threw\<close>
  "createGeometry fails batch =
     (if upload_loop fails [0..<batch] then build_loop fails [0..<batch] else ([], False))"

text \<open>
  The environment of a run: the library functions \<open>std::stof\<close> and \<open>atoi\<close> (its result
  as stored in the \<open>unsigned int\<close> \<open>knn\<close>), the file system, the build mode, the constant
  \<open>MAX_DIM\<close> of \<open>optixNDRangeSearch.h\<close>, the stages that fail, the slot writes of the
  device program launched for a batch, and the content of fresh device memory.
\<close>

record 'f env =
  env_stof :: "string \<Rightarrow> 'f option"
  env_atoi :: "string \<Rightarrow> 32 word"
  env_fs :: "string \<Rightarrow> string list option"
  env_ndebug :: bool
  MAX_DIM :: int
  env_fails :: "stage \<Rightarrow> bool"
  env_device :: "nat \<Rightarrow> (nat \<times> 32 word) list"
  env_raw :: "nat \<Rightarrow> 8 word"

definition caught :: "'d event list \<Rightarrow> 'd event list \<times> outcome" where
  "caught ev = (ev @ [CaughtException], Exit 1)"

text \<open>The \<open>try\<close> block of \<open>main\<close>, with \<open>state.batch = state.dim/3\<close>.\<close>

definition run_device ::
  "('f, 'd) arith \<Rightarrow> 'f env \<Rightarrow> 'f options \<Rightarrow> 'f ndarray \<Rightarrow> 32 word \<Rightarrow> nat
     \<Rightarrow> 'd event list \<times> outcome" where
  "run_device A E st nd numPrims dm =
     (if env_fails E DeviceSetup \<or> env_fails E CreateContext then caught []
      else (case createGeometry (env_fails E) (dm div 3) of
              (ev, False) \<Rightarrow> caught ev
            | (ev, True) \<Rightarrow>
                if env_fails E CreatePipeline \<or> env_fails E CreateSBT
                   \<or> env_fails E AllocOutput
                then caught ev
                else (case launchSubframe (env_fails E) (env_device E)
                             (alloc_output (env_raw E) (numPrims * knn st))
                             numPrims (knn st) 0 of
                        (evl, None) \<Rightarrow> caught (ev @ evl)
                      | (evl, Some data) \<Rightarrow>
                          (let ev1 = ev @ evl
                           in if env_fails E HostCopy then caught ev1
                              else (case verify A nd (radius st) data (knn st) numPrims of
                                      None \<Rightarrow> (ev1, Undefined)
                                    | Some (t, out) \<Rightarrow>
                                        (case report A numPrims t of
                                           None \<Rightarrow> (ev1 @ out, Undefined)
                                         | Some rep \<Rightarrow>
                                             if env_fails E Cleanup
                                             then caught (ev1 @ out @ rep)
                                             else (ev1 @ out @ rep, Exit 0)))))))"

definition fault_outcome :: "fault \<Rightarrow> outcome" where
  "fault_outcome f =
     (case f of
        StofThrow \<Rightarrow> Abort
      | NoProgress \<Rightarrow> Hang
      | WriteOutOfRange \<Rightarrow> Undefined
      | AssertFail \<Rightarrow> Abort)"

definition main :: "('f, 'd) arith \<Rightarrow> 'f env \<Rightarrow> string list \<Rightarrow> 'd event list \<times> outcome" where
  "main A E argv =
     (case parse_args (env_stof E) (env_atoi E) (drop 1 argv)
             \<lparr>outfile = [], knn = 50, radius = ftwo A\<rparr> of
        (ev, Inl out) \<Rightarrow> (ev, out)
      | (ev, Inr st) \<Rightarrow>
          (case read_pc_data (env_ndebug E) (env_stof E) (env_fs E) (outfile st) of
             (diag, res) \<Rightarrow>
               (let ev1 = ev @ (if diag then [CouldNotRead] else [])
                in case res of
                     Inl f \<Rightarrow> (ev1, fault_outcome f)
                   | Inr (nd, numPrims, dm) \<Rightarrow>
                       if int dm \<le> 0 \<or> int dm > MAX_DIM E then (ev1 @ [Usage], Exit 0)
                       else (case run_device A E st nd numPrims dm of
                               (ev2, out) \<Rightarrow> (ev1 @ ev2, out)))))"

text \<open>
  An arithmetic for the worked examples only. No property of the program is stated
  through it: every theorem about the verification holds for an arbitrary record
  \<open>A\<close>. The examples apply it to small integers and perfect squares, on which
  \<open>float\<close> and \<open>double\<close> arithmetic give the same values as the reals.
\<close>

definition real_arith :: "(real, real) arith" where
  "real_arith =
     \<lparr>fsub = (\<lambda>a b. a - b), fadd = (\<lambda>a b. a + b), fmul = (\<lambda>a b. a * b),
      fgt = (\<lambda>a b. a > b), fsqrt = sqrt, dzero = 0, dadd = (\<lambda>a b. a + b),
      ddiv = (\<lambda>d n. d / real (unat n)), ftwo = 2\<rparr>"

section \<open>Notions used to state the properties\<close>

text \<open>
  The fields of a row, as the specification counts them: the pieces between the commas.
  A row without a comma is one field.
\<close>

fun row_fields :: "string \<Rightarrow> string list" where
  "row_fields [] = [[]]"
| "row_fields (c # cs) =
     (if c = CHR '','' then [] # row_fields cs
      else (case row_fields cs of
              [] \<Rightarrow> [[c]]
            | f # fs \<Rightarrow> (c # f) # fs))"

definition coord3 :: "'f float3 \<Rightarrow> nat \<Rightarrow> 'f option" where
  \<comment> \<open>component \<open>k\<close> of a \<open>float3\<close>: \<open>x\<close>, \<open>y\<close>, \<open>z\<close> for 0, 1, 2\<close>
  "coord3 p k = (case p of (x, y, z) \<Rightarrow> if k = 0 then x else if k = 1 then y else z)"

text \<open>
  A stand-in for \<open>std::stof\<close> in the examples: exact on a string of decimal digits with
  an optional minus sign in front, and on a string that starts with a letter other than
  \<open>i\<close>, \<open>n\<close>, \<open>I\<close>, \<open>N\<close> or is empty, where \<open>std::stof\<close> throws. The examples use
  it on such strings only.
\<close>

fun digits_val :: "string \<Rightarrow> nat \<Rightarrow> nat option" where
  "digits_val [] acc = Some acc"
| "digits_val (c # cs) acc =
     (let d = (of_char c :: nat)
      in if 48 \<le> d \<and> d \<le> 57 then digits_val cs (acc * 10 + (d - 48)) else None)"

definition stof_lit :: "string \<Rightarrow> real option" where
  "stof_lit s =
     (case s of
        [] \<Rightarrow> None
      | c # cs \<Rightarrow>
          if c = CHR ''-''
          then (if cs = [] then None else map_option (\<lambda>n. - real n) (digits_val cs 0))
          else map_option real (digits_val s 0))"

text \<open>
  The entries of the row of query \<open>q\<close> that the verification examines: the slots of
  the row up to the first sentinel. \<open>entry_dist\<close> is the squared distance the check
  recomputes for the entry \<open>p\<close>, from the coordinates of batch 0.
\<close>

definition scanned_row :: "32 word list \<Rightarrow> 32 word \<Rightarrow> 32 word \<Rightarrow> 32 word list" where
  "scanned_row data K q =
     takeWhile (\<lambda>p. p \<noteq> UINT_MAX) (map (\<lambda>j. data ! slot K q (of_nat j)) [0..<unat K])"


definition entry_dist :: "('f, 'd) arith \<Rightarrow> 'f ndarray \<Rightarrow> 32 word \<Rightarrow> 32 word \<Rightarrow> 'f" where
  "entry_dist A nd q p =
     dist2 A (the (point_at nd 0 (unat p))) (the (point_at nd 0 (unat q)))"

definition examined :: "('f, 'd) arith \<Rightarrow> 'f ndarray \<Rightarrow> 32 word list \<Rightarrow> 32 word \<Rightarrow> 32 word \<Rightarrow> 'f list" where
  "examined A nd data K N =
     concat (map (\<lambda>i. map (entry_dist A nd (of_nat i)) (scanned_row data K (of_nat i)))
               [0..<unat N])"

definition is_wrong :: "('f, 'd) arith \<Rightarrow> 'f \<Rightarrow> 'f \<Rightarrow> bool" where
  \<comment> \<open>\<open>dists > state.params.radius*state.params.radius\<close>\<close>
  "is_wrong A r dists = fgt A dists (fmul A r r)"

text \<open>
  The sum the specification describes for the incorrect reports: the excess of each
  distance over the radius. Its arguments are the radius and the squared distances.
\<close>

definition excess_sum_spec :: "real \<Rightarrow> real list \<Rightarrow> real" where
  "excess_sum_spec r ds = sum_list (map (\<lambda>d. sqrt d - r) (filter (\<lambda>d. sqrt d > r) ds))"

text \<open>The batches built, the batches launched, and what the trace of a run shows of them.\<close>

fun builds :: "'d event list \<Rightarrow> nat list" where
  "builds [] = []"
| "builds (BuildGas b # es) = b # builds es"
| "builds (e # es) = builds es"

fun launches :: "'d event list \<Rightarrow> nat list" where
  "launches [] = []"
| "launches (Launch b # es) = b # launches es"
| "launches (e # es) = launches es"

text \<open>
  A prefix of the command line that the argument loop passes: flags that take a value,
  each with its value, the radius values accepted by \<open>stof\<close>.
\<close>

fun passes_args :: "(string \<Rightarrow> 'f option) \<Rightarrow> string list \<Rightarrow> bool" where
  "passes_args stof [] = True"
| "passes_args stof [a] = False"
| "passes_args stof (a # v # rest) =
     ((a = ''--file'' \<or> a = ''-f'' \<or> a = ''--knn'' \<or> a = ''-k''
       \<or> ((a = ''--radius'' \<or> a = ''-r'') \<and> stof v \<noteq> None))
      \<and> passes_args stof rest)"

definition takes_value :: "string \<Rightarrow> bool" where
  "takes_value a \<longleftrightarrow>
     a = ''--file'' \<or> a = ''-f'' \<or> a = ''--knn'' \<or> a = ''-k'' \<or> a = ''--radius'' \<or> a = ''-r''"

text \<open>
  The environment of the examples: \<open>stof_lit\<close>, \<open>atoi\<close> on digit strings (0 where
  \<open>atoi\<close> converts nothing), no failing stage, a fresh buffer of zero bytes, and the
  file system, the build mode, \<open>MAX_DIM\<close> and the device program as given.
\<close>

definition atoi_lit :: "string \<Rightarrow> 32 word" where
  "atoi_lit s = (case digits_val s 0 of None \<Rightarrow> 0 | Some n \<Rightarrow> of_nat n)"

definition demo_env ::
  "(string \<Rightarrow> string list option) \<Rightarrow> bool \<Rightarrow> int \<Rightarrow> (nat \<Rightarrow> (nat \<times> 32 word) list) \<Rightarrow> real env" where
  "demo_env files nd md prog =
     \<lparr>env_stof = stof_lit, env_atoi = atoi_lit, env_fs = files, env_ndebug = nd,
      MAX_DIM = md, env_fails = (\<lambda>_. False), env_device = prog, env_raw = (\<lambda>_. 0)\<rparr>"

definition reads_batch0 :: "'d event list \<Rightarrow> bool" where
  \<comment> \<open>every coordinate read of the trace is a read of batch 0\<close>
  "reads_batch0 ev \<longleftrightarrow> (\<forall>b p q. ReadPoints b p q \<in> set ev \<longrightarrow> b = 0)"

text \<open>The input files and the device program of the examples.\<close>

definition one_row_file :: "string \<Rightarrow> string list option" where
  "one_row_file p = (if p = ''points.csv'' then Some [''1,2,3''] else None)"

definition two_batch_file :: "string \<Rightarrow> string list option" where
  "two_batch_file p =
     (if p = ''points.csv'' then Some [''1,2,3,4,5,6'', ''1,2,4,4,5,6''] else None)"

definition each_other :: "nat \<Rightarrow> (nat \<times> 32 word) list" where
  \<comment> \<open>a device program that reports point 1 for query 0 and point 0 for query 1\<close>
  "each_other batch = [(0, 1), (1, 0)]"

section \<open>The result rows and the sentinel\<close>

lemma word_of4_ff: "word_of4 0xFF 0xFF 0xFF 0xFF = UINT_MAX"
  by (simp add: word_of4_def UINT_MAX_def)

lemma words_of_replicate_ff:
  "words_of (replicate (4 * n) 0xFF) = replicate n UINT_MAX"
proof (induction n)
  case 0
  show ?case by simp
next
  case (Suc n)
  have "replicate (4 * Suc n) (0xFF :: 8 word)
          = 0xFF # 0xFF # 0xFF # 0xFF # replicate (4 * n) 0xFF"
    by (simp add: numeral_eq_Suc)
  with Suc show ?case by (simp add: word_of4_ff)
qed

lemma cudaMemset_whole:
  "cudaMemset (alloc_output raw w) v (unat w * 4) = replicate (4 * unat w) v"
  by (simp add: cudaMemset_def alloc_output_def mult.commute)

lemma optixLaunch_length: "length (optixLaunch ws fb) = length fb"
  unfolding optixLaunch_def by (induction ws arbitrary: fb) (auto split: prod.splits)

lemma optixLaunch_frame:
  "i \<notin> fst ` set ws \<Longrightarrow> optixLaunch ws fb ! i = fb ! i"
  unfolding optixLaunch_def
proof (induction ws arbitrary: fb)
  case Nil
  show ?case by simp
next
  case (Cons w ws)
  obtain k v where w: "w = (k, v)" by (cases w)
  from Cons.prems w have "k \<noteq> i" and "i \<notin> fst ` set ws" by auto
  with Cons.IH [of "fb[k := v]"] w show ?case by simp
qed

lemma slot_no_wrap:
  assumes "unat N * unat K < 2 ^ 32" and "q < N" and "j < K"
  shows "slot K q j = unat q * unat K + unat j" and "slot K q j < unat (N * K)"
proof -
  have qn: "unat q < unat N" and jk: "unat j < unat K"
    using assms by (simp_all add: word_less_nat_alt)
  have "unat q * unat K + unat j < Suc (unat q) * unat K" using jk by simp
  also have "\<dots> \<le> unat N * unat K" using qn by (intro mult_le_mono1) simp
  finally have lt: "unat q * unat K + unat j < unat N * unat K" .
  with assms(1) have b: "unat q * unat K + unat j < 2 ^ 32" by simp
  have nk: "unat (N * K) = unat N * unat K"
    using assms(1) by (simp add: unat_word_ariths)
  have "unat q * unat K < 2 ^ 32" using b by simp
  then have qk: "unat (q * K) = unat q * unat K" by (simp add: unat_word_ariths)
  show "slot K q j = unat q * unat K + unat j"
    using b qk by (simp add: slot_def unat_word_ariths)
  then show "slot K q j < unat (N * K)" using lt nk by simp
qed

lemma launchSubframe_Some:
  "launchSubframe fails prog (alloc_output raw (N * K)) N K b = (ev, Some data) \<Longrightarrow>
     ev = [Launch b] \<and> data = optixLaunch (prog b) (replicate (unat (N * K)) UINT_MAX)"
  by (simp add: launchSubframe_def Let_def cudaMemset_whole words_of_replicate_ff
        split: if_splits)

text \<open>
  C1, as the code has it. The buffer size \<open>numPrims * knn\<close> and the index \<open>q * knn + j\<close>
  are computed in \<open>unsigned int\<close>. When the product of the point count and K fits
  \<open>unsigned int\<close>, slot \<open>j\<close> of the row of query \<open>q\<close> is entry \<open>q * K + j\<close> of the result
  buffer: every row has its own K slots inside the buffer. After the \<open>cudaMemset\<close> of
  \<open>launchSubframe\<close>, whatever the fresh buffer held, the slot reads \<open>UINT_MAX\<close>, the
  largest \<open>unsigned int\<close>; and in the buffer that \<open>launchSubframe\<close> yields after the
  launch, a slot that the device program has not written still reads \<open>UINT_MAX\<close>.
  When the product does not fit, it wraps: for 65536 points and K = 65536 the buffer has
  no element, nothing is set to \<open>UINT_MAX\<close>, and the row of query 0 has no slot in it.
\<close>

theorem result_rows_sentinel:
  assumes "unat N * unat K < 2 ^ 32" and "q < N" and "j < K"
    and "launchSubframe fails prog (alloc_output raw (N * K)) N K b = (ev, Some data)"
  shows "slot K q j = unat q * unat K + unat j
       \<and> slot K q j < length data
       \<and> words_of (cudaMemset (alloc_output raw (N * K)) 0xFF (unat (N * K) * 4)) ! slot K q j
           = UINT_MAX
       \<and> (\<forall>w :: 32 word. w \<le> UINT_MAX)
       \<and> (slot K q j \<notin> fst ` set (prog b) \<longrightarrow> data ! slot K q j = UINT_MAX)"
proof -
  note s = slot_no_wrap [OF assms(1-3)]
  note d = launchSubframe_Some [OF assms(4)]
  have "(w :: 32 word) \<le> UINT_MAX" for w
  proof -
    have e: "UINT_MAX = (- 1 :: 32 word)" by (simp add: UINT_MAX_def)
    show ?thesis unfolding e by simp
  qed
  then show ?thesis
    using s d by (simp add: optixLaunch_length optixLaunch_frame
        cudaMemset_whole words_of_replicate_ff)
qed

lemma launchSubframe_ok:
  "\<not> fails PrepareLaunch \<Longrightarrow> \<not> fails LaunchSync \<Longrightarrow>
     launchSubframe fails prog (alloc_output raw (N * K)) N K b
       = ([Launch b], Some (optixLaunch (prog b) (replicate (unat (N * K)) UINT_MAX)))"
  by (simp add: launchSubframe_def Let_def cudaMemset_whole words_of_replicate_ff)

lemma eval_launch_small:
  "launchSubframe (\<lambda>_. False) (\<lambda>_. [(0, 7)]) (alloc_output (\<lambda>_. 0) (2 * 2)) 2 2 0
     = ([Launch 0 :: real event], Some [7, UINT_MAX, UINT_MAX, UINT_MAX])"
proof -
  have r4: "replicate 4 UINT_MAX = [UINT_MAX, UINT_MAX, UINT_MAX, UINT_MAX]"
    by (simp add: numeral_eq_Suc)
  have u: "unat (2 * 2 :: 32 word) = 4" by simp
  show ?thesis
    by (subst launchSubframe_ok) (simp_all only: u r4 optixLaunch_def foldl.simps
          prod.case list_update_code simp_thms)
qed

theorem result_rows_sentinel_witness:
  "unat (2 :: 32 word) * unat (2 :: 32 word) < 2 ^ 32 \<and> (1 :: 32 word) < 2
   \<and> slot 2 1 1 = 3
   \<and> slot 2 1 1 \<notin> fst ` set [(0 :: nat, 7 :: 32 word)]
   \<and> [7, UINT_MAX, UINT_MAX, UINT_MAX] ! slot 2 1 1 = UINT_MAX"
proof -
  have h1: "unat (2 :: 32 word) * unat (2 :: 32 word) < 2 ^ 32" by simp
  have h2: "(1 :: 32 word) < 2" by simp
  have s: "slot 2 1 1 = 3" by (simp add: slot_def)
  show ?thesis
    using result_rows_sentinel [OF h1 h2 h2 eval_launch_small] h1 h2 s
    by simp
qed

theorem result_rows_overflow_counterexample:
  "unat (65536 :: 32 word) * unat (65536 :: 32 word) = 2 ^ 32
   \<and> (0 :: 32 word) < 65536
   \<and> alloc_output (\<lambda>_. 0) (65536 * 65536) = []
   \<and> words_of (cudaMemset (alloc_output (\<lambda>_. 0) (65536 * 65536)) 0xFF
        (unat (65536 * 65536 :: 32 word) * 4)) = []
   \<and> launchSubframe (\<lambda>_. False) (\<lambda>_. []) (alloc_output (\<lambda>_. 0) (65536 * 65536)) 65536 65536 0
        = ([Launch 0 :: real event], Some [])
   \<and> slot 65536 0 0 = 0"
proof -
  have z: "(65536 * 65536 :: 32 word) = 0" by simp
  have a: "alloc_output (\<lambda>_. 0) (0 :: 32 word) = []" by (simp add: alloc_output_def)
  show ?thesis
    unfolding z a
    by (simp add: launchSubframe_def cudaMemset_def optixLaunch_def slot_def)
qed

section \<open>The scan of a row\<close>



lemma map_upt_Suc: "map f [0..<Suc n] = f 0 # map (\<lambda>m. f (Suc m)) [0..<n]"
  by (simp only: upt_conv_Cons [of 0 "Suc n"] map_Suc_upt [symmetric]) (simp add: comp_def)




section \<open>Properties of the ingestion\<close>

lemma row_fields_nonempty: "row_fields cs \<noteq> []"
  by (induction cs) (auto split: list.splits)

lemma find_at_comma_None: "find_at '','' cs i = None \<Longrightarrow> row_fields cs = [cs]"
  by (induction cs arbitrary: i) (auto split: if_splits)

lemma find_at_comma_Some:
  "find_at '','' cs i = Some e \<Longrightarrow>
     i \<le> e \<and> e < i + length cs
     \<and> row_fields cs = take (e - i) cs # row_fields (drop (Suc (e - i)) cs)"
proof (induction cs arbitrary: i)
  case Nil
  then show ?case by simp
next
  case (Cons c cs)
  show ?case
  proof (cases "c = CHR '',''")
    case True
    with Cons.prems show ?thesis by simp
  next
    case False
    with Cons.prems have f: "find_at '','' cs (Suc i) = Some e" by simp
    from Cons.IH [OF f] have le: "Suc i \<le> e" and lt: "e < Suc i + length cs"
      and rf: "row_fields cs = take (e - Suc i) cs # row_fields (drop (Suc (e - Suc i)) cs)"
      by auto
    define k where "k = e - Suc i"
    from le have ei: "e - i = Suc k" by (simp add: k_def)
    have rf': "row_fields cs = take k cs # row_fields (drop (Suc k) cs)"
      using rf by (simp add: k_def)
    have "row_fields (c # cs) = (c # take k cs) # row_fields (drop (Suc k) cs)"
      using False by (simp add: rf' [symmetric]) (simp add: rf')
    then have "row_fields (c # cs) = take (e - i) (c # cs) # row_fields (drop (Suc (e - i)) (c # cs))"
      by (simp add: ei)
    with le lt show ?thesis by simp
  qed
qed


lemma find_str_comma_None:
  "find_str s '','' start = None \<Longrightarrow> start \<le> length s \<Longrightarrow>
     row_fields (drop start s) = [drop start s]"
  by (simp add: find_str_def find_at_comma_None)

lemma find_str_comma_Some:
  assumes "find_str s '','' start = Some e"
  shows "start \<le> e \<and> e < length s
       \<and> row_fields (drop start s) = substr s start (e - start) # row_fields (drop (e + 1) s)"
proof -
  from assms have le: "start \<le> length s"
    and fa: "find_at '','' (drop start s) start = Some e"
    by (auto simp: find_str_def split: if_splits)
  from find_at_comma_Some [OF fa] have se: "start \<le> e" and el: "e < length s"
    and rf: "row_fields (drop start s)
               = take (e - start) (drop start s) # row_fields (drop (Suc (e - start)) (drop start s))"
    using le by auto
  from se have "drop (Suc (e - start)) (drop start s) = drop (e + 1) s" by simp
  with rf se el show ?thesis by (simp add: substr_def)
qed

lemma tok_loop_comma:
  "tok_loop stof s '','' keep start dm vc = Inr (start', dm', vc') \<Longrightarrow> start \<le> length s \<Longrightarrow>
     \<exists>w. map stof (butlast (row_fields (drop start s))) = map Some w
        \<and> dm' = dm + length w \<and> vc' = (if keep then vc @ w else vc)
        \<and> start' \<le> length s \<and> [drop start' s] = [last (row_fields (drop start s))]"
proof (induction stof s "'',''" keep start dm vc rule: tok_loop.induct)
  case (1 stof s keep start dm vcoords)
  show ?case
  proof (cases "find_str s '','' start")
    case None
    with "1.prems" have "start' = start" "dm' = dm" "vc' = vcoords"
      by (simp_all add: tok_loop.simps)
    with find_str_comma_None [OF None "1.prems"(2)] "1.prems"(2) show ?thesis by simp
  next
    case (Some e)
    from find_str_comma_Some [OF Some] have se: "start \<le> e" and el: "e < length s"
      and rf: "row_fields (drop start s)
                 = substr s start (e - start) # row_fields (drop (e + 1) s)"
      by auto
    from "1.prems"(1) Some obtain coord where
      c: "stof (substr s start (e - start)) = Some coord"
      and rec: "tok_loop stof s '','' keep (e + length '','') (dm + 1)
                  (if keep then vcoords @ [coord] else vcoords) = Inr (start', dm', vc')"
      by (subst (asm) tok_loop.simps) (auto split: option.splits)
    have "e + length '','' \<le> length s" using el by simp
    from "1.hyps" [OF Some c _ rec this]
    obtain w where w: "map stof (butlast (row_fields (drop (e + 1) s))) = map Some w"
      "dm' = dm + 1 + length w"
      "vc' = (if keep then (if keep then vcoords @ [coord] else vcoords) @ w
              else (if keep then vcoords @ [coord] else vcoords))"
      "start' \<le> length s" "[drop start' s] = [last (row_fields (drop (e + 1) s))]"
      by auto
    have "map stof (butlast (row_fields (drop start s))) = map Some (coord # w)"
      using rf w(1) c by (simp add: row_fields_nonempty)
    moreover have "last (row_fields (drop start s)) = last (row_fields (drop (e + 1) s))"
      using rf by (simp add: row_fields_nonempty)
    ultimately show ?thesis using w by (intro exI [of _ "coord # w"]) auto
  qed
qed

lemma scan_fields_comma:
  assumes "scan_fields stof s '','' keep = Inr (n, v)"
  shows "\<exists>w. map stof (row_fields s) = map Some w \<and> n = length w
             \<and> v = (if keep then w else [])"
proof -
  from assms obtain start dim0 vc0 coord where
    tl: "tok_loop stof s '','' keep 0 0 [] = Inr (start, dim0, vc0)"
    and c: "stof (drop start s) = Some coord"
    and n: "n = dim0 + 1" and v: "v = (if keep then vc0 @ [coord] else vc0)"
    by (auto simp: scan_fields_def split: sum.splits option.splits)
  from tok_loop_comma [OF tl] obtain w where
    w: "map stof (butlast (row_fields s)) = map Some w" "dim0 = length w"
       "vc0 = (if keep then w else [])" "drop start s = last (row_fields s)"
    by auto
  have "row_fields s = butlast (row_fields s) @ [last (row_fields s)]"
    by (simp add: row_fields_nonempty)
  then have "map stof (row_fields s) = map stof (butlast (row_fields s)) @ [stof (drop start s)]"
    using w(4) by (metis list.simps(8,9) map_append)
  then have "map stof (row_fields s) = map Some (w @ [coord])"
    using w(1) c by simp
  then show ?thesis using n v w(2,3) by (intro exI [of _ "w @ [coord]"]) auto
qed

lemma store_batches_result:
  "store_batches v l bs nd = Inr nd' \<Longrightarrow>
     length nd' = length nd
     \<and> (\<forall>b < length nd. length (nd' ! b) = length (nd ! b))
     \<and> (\<forall>b \<in> set bs. b < length nd \<and> l < length (nd ! b) \<and> nd' ! b ! l = batch_point v b)
     \<and> (\<forall>b l'. b < length nd \<longrightarrow> b \<notin> set bs \<or> l' \<noteq> l \<longrightarrow> nd' ! b ! l' = nd ! b ! l')"
proof (induction bs arbitrary: nd)
  case Nil
  then show ?case by simp
next
  case (Cons b0 bs)
  define nd1 where "nd1 = nd[b0 := (nd ! b0)[l := batch_point v b0]]"
  from Cons.prems have b0: "b0 < length nd" "l < length (nd ! b0)"
    and rec: "store_batches v l bs nd1 = Inr nd'"
    by (auto simp: nd1_def split: if_splits)
  have len1: "length nd1 = length nd" by (simp add: nd1_def)
  have lens1: "length (nd1 ! b) = length (nd ! b)" if "b < length nd" for b
    using that by (cases "b = b0") (simp_all add: nd1_def)
  have at1: "nd1 ! b0 ! l = batch_point v b0" using b0 by (simp add: nd1_def)
  have fr1: "nd1 ! b ! l' = nd ! b ! l'" if "b < length nd" "b \<noteq> b0 \<or> l' \<noteq> l" for b l'
    using that by (cases "b = b0") (auto simp: nd1_def)
  note IH = Cons.IH [OF rec]
  from IH have len: "length nd' = length nd" using len1 by simp
  from IH have lens: "\<forall>b < length nd. length (nd' ! b) = length (nd ! b)"
    using len1 lens1 by simp
  have hit: "\<forall>b \<in> set (b0 # bs). b < length nd \<and> l < length (nd ! b) \<and> nd' ! b ! l = batch_point v b"
  proof
    fix b assume "b \<in> set (b0 # bs)"
    show "b < length nd \<and> l < length (nd ! b) \<and> nd' ! b ! l = batch_point v b"
    proof (cases "b \<in> set bs")
      case True
      with IH len1 lens1 show ?thesis by auto
    next
      case False
      with \<open>b \<in> set (b0 # bs)\<close> have "b = b0" by simp
      moreover from IH False len1 b0 \<open>b = b0\<close> have "nd' ! b0 ! l = nd1 ! b0 ! l" by auto
      ultimately show ?thesis using b0 at1 by simp
    qed
  qed
  have frame: "\<forall>b l'. b < length nd \<longrightarrow> b \<notin> set (b0 # bs) \<or> l' \<noteq> l \<longrightarrow> nd' ! b ! l' = nd ! b ! l'"
  proof (intro allI impI)
    fix b l' assume b: "b < length nd" and o: "b \<notin> set (b0 # bs) \<or> l' \<noteq> l"
    then have "b \<notin> set bs \<or> l' \<noteq> l" by auto
    with IH b len1 have "nd' ! b ! l' = nd1 ! b ! l'" by auto
    moreover from o have "b \<noteq> b0 \<or> l' \<noteq> l" by auto
    ultimately show "nd' ! b ! l' = nd ! b ! l'" using fr1 [OF b] by simp
  qed
  from len lens hit frame show ?case by blast
qed


lemma pad3_div: "pad3 n div 3 = (n + 2) div 3"
  by (simp add: pad3_def) presburger

lemma pad3_eq: "pad3 n = 3 * ((n + 2) div 3)"
  by (simp add: pad3_def) presburger

lemma map_Some_length: "map f xs = map Some w \<Longrightarrow> length w = length xs"
  by (metis length_map)

lemma tokenize_None_result:
  assumes "tokenize stof s '','' None l = Inr (d, x)"
  shows "x = None \<and> d = pad3 (length (row_fields s))
       \<and> (\<exists>w. map stof (row_fields s) = map Some w)"
proof -
  from assms obtain n v where sc: "scan_fields stof s '','' False = Inr (n, v)"
    and d: "d = pad3 n" and x: "x = None"
    by (auto simp: tokenize_def Let_def split: sum.splits)
  from scan_fields_comma [OF sc] obtain w where
    w: "map stof (row_fields s) = map Some w" "n = length w" by auto
  with d x map_Some_length [OF w(1)] show ?thesis by auto
qed

lemma tokenize_Some_result:
  assumes "tokenize stof s '','' (Some nd) l = Inr (d, x)"
  shows "\<exists>w nd'. x = Some nd' \<and> map stof (row_fields s) = map Some w
           \<and> d = pad3 (length (row_fields s))
           \<and> store_batches w (unat l) [0..<d div 3] nd = Inr nd'"
proof -
  from assms obtain n v nd' where sc: "scan_fields stof s '','' True = Inr (n, v)"
    and d: "d = pad3 n" and st: "store_batches v (unat l) [0..<d div 3] nd = Inr nd'"
    and x: "x = Some nd'"
    by (auto simp: tokenize_def Let_def split: sum.splits)
  from scan_fields_comma [OF sc] obtain w where
    w: "map stof (row_fields s) = map Some w" "n = length w" "v = w" by auto
  with d x st map_Some_length [OF w(1)] show ?thesis by auto
qed

lemma count_pass_lines:
  "count_pass stof rows lines dm = Inr (l', d') \<Longrightarrow> l' = lines + of_nat (length rows)"
proof (induction rows arbitrary: lines dm)
  case Nil
  then show ?case by simp
next
  case (Cons r rows)
  from Cons.prems obtain d where "count_pass stof rows (lines + 1) d = Inr (l', d')"
    by (auto split: if_splits sum.splits)
  from Cons.IH [OF this] show ?case by (simp add: add.assoc)
qed

lemma unat_plus_one:
  "unat (k :: 32 word) + 1 < 2 ^ 32 \<Longrightarrow> unat (k + 1) = unat k + 1"
  by (simp add: unat_word_ariths)

lemma count_pass_keeps_dim:
  "count_pass stof rows lines dm = Inr (l', d') \<Longrightarrow> lines \<noteq> 0 \<Longrightarrow>
     unat lines + length rows < 2 ^ 32 \<Longrightarrow> d' = dm"
proof (induction rows arbitrary: lines)
  case Nil
  then show ?case by simp
next
  case (Cons r rows)
  from Cons.prems have rec: "count_pass stof rows (lines + 1) dm = Inr (l', d')" by simp
  from Cons.prems(3) have u: "unat (lines + 1) = unat lines + 1"
    by (intro unat_plus_one) simp
  then have "lines + 1 \<noteq> 0" by (metis add_is_0 unat_0 zero_neq_one)
  moreover have "unat (lines + 1) + length rows < 2 ^ 32" using u Cons.prems(3) by simp
  ultimately show ?case using Cons.IH [OF rec] by simp
qed

lemma count_pass_first:
  assumes "count_pass stof (row # rest) 0 dm = Inr (l', d')" and "length (row # rest) < 2 ^ 32"
  shows "l' = of_nat (length (row # rest)) \<and> d' = pad3 (length (row_fields row))"
proof -
  from assms(1) obtain d x where t: "tokenize stof row '','' None 0 = Inr (d, x)"
    and rec: "count_pass stof rest (0 + 1) d = Inr (l', d')"
    by (auto split: sum.splits)
  from tokenize_None_result [OF t] have d: "d = pad3 (length (row_fields row))" by simp
  have "unat (0 + 1 :: 32 word) + length rest < 2 ^ 32" using assms(2) by simp
  from count_pass_keeps_dim [OF rec _ this] have "d' = d" by simp
  with d count_pass_lines [OF assms(1)] show ?thesis by simp
qed

lemma fill_pass_result:
  "fill_pass stof rows k nd = Inr nd' \<Longrightarrow> unat k + length rows < 2 ^ 32 \<Longrightarrow>
     length nd' = length nd
     \<and> (\<forall>b < length nd. length (nd' ! b) = length (nd ! b))
     \<and> (\<forall>i < length rows. \<exists>w. map stof (row_fields (rows ! i)) = map Some w
           \<and> (\<forall>b < pad3 (length w) div 3.
                 b < length nd \<and> unat k + i < length (nd ! b)
                 \<and> nd' ! b ! (unat k + i) = batch_point w b))
     \<and> (\<forall>b l. b < length nd \<longrightarrow> l < unat k \<longrightarrow> nd' ! b ! l = nd ! b ! l)"
proof (induction rows arbitrary: k nd)
  case Nil
  then show ?case by simp
next
  case (Cons r rows)
  from Cons.prems(1) obtain d x where t: "tokenize stof r '','' (Some nd) k = Inr (d, x)"
    by (auto split: sum.splits)
  from tokenize_Some_result [OF t] obtain w nd1 where x: "x = Some nd1"
    and w: "map stof (row_fields r) = map Some w"
    and d: "d = pad3 (length (row_fields r))"
    and st: "store_batches w (unat k) [0..<d div 3] nd = Inr nd1"
    by auto
  have lw: "length w = length (row_fields r)" using map_Some_length [OF w] .
  from Cons.prems(1) t x have rec: "fill_pass stof rows (k + 1) nd1 = Inr nd'" by simp
  from Cons.prems(2) have u: "unat (k + 1) = unat k + 1" by (intro unat_plus_one) simp
  then have b2: "unat (k + 1) + length rows < 2 ^ 32" using Cons.prems(2) by simp
  note S = store_batches_result [OF st]
  note IH = Cons.IH [OF rec b2]
  from S have len1: "length nd1 = length nd"
    and lens1: "\<And>b. b < length nd \<Longrightarrow> length (nd1 ! b) = length (nd ! b)" by auto
  have len: "length nd' = length nd" using IH len1 by simp
  have lens: "\<forall>b < length nd. length (nd' ! b) = length (nd ! b)"
    using IH len1 lens1 by simp
  have frame: "\<forall>b l. b < length nd \<longrightarrow> l < unat k \<longrightarrow> nd' ! b ! l = nd ! b ! l"
  proof (intro allI impI)
    fix b l assume b: "b < length nd" and l: "l < unat k"
    then have "nd' ! b ! l = nd1 ! b ! l" using IH len1 u by simp
    also have "\<dots> = nd ! b ! l" using S b l by auto
    finally show "nd' ! b ! l = nd ! b ! l" .
  qed
  have rows: "\<forall>i < length (r # rows). \<exists>w. map stof (row_fields ((r # rows) ! i)) = map Some w
           \<and> (\<forall>b < pad3 (length w) div 3.
                 b < length nd \<and> unat k + i < length (nd ! b)
                 \<and> nd' ! b ! (unat k + i) = batch_point w b)"
  proof (intro allI impI)
    fix i assume i: "i < length (r # rows)"
    show "\<exists>w. map stof (row_fields ((r # rows) ! i)) = map Some w
           \<and> (\<forall>b < pad3 (length w) div 3.
                 b < length nd \<and> unat k + i < length (nd ! b)
                 \<and> nd' ! b ! (unat k + i) = batch_point w b)"
    proof (cases i)
      case 0
      have "\<forall>b < pad3 (length w) div 3.
              b < length nd \<and> unat k + 0 < length (nd ! b)
              \<and> nd' ! b ! (unat k + 0) = batch_point w b"
      proof (intro allI impI)
        fix b assume "b < pad3 (length w) div 3"
        then have bs: "b \<in> set [0..<d div 3]" using d lw by simp
        with S have s: "b < length nd" "unat k < length (nd ! b)"
          "nd1 ! b ! unat k = batch_point w b" by auto
        have "nd' ! b ! unat k = nd1 ! b ! unat k" using IH s(1) len1 u by simp
        with s show "b < length nd \<and> unat k + 0 < length (nd ! b)
              \<and> nd' ! b ! (unat k + 0) = batch_point w b" by simp
      qed
      with w 0 show ?thesis by auto
    next
      case (Suc i')
      with i have i': "i' < length rows" by simp
      with IH obtain w' where w': "map stof (row_fields (rows ! i')) = map Some w'"
        "\<forall>b < pad3 (length w') div 3.
            b < length nd1 \<and> unat (k + 1) + i' < length (nd1 ! b)
            \<and> nd' ! b ! (unat (k + 1) + i') = batch_point w' b"
        by blast
      have "\<forall>b < pad3 (length w') div 3.
              b < length nd \<and> unat k + i < length (nd ! b)
              \<and> nd' ! b ! (unat k + i) = batch_point w' b"
      proof (intro allI impI)
        fix b assume b: "b < pad3 (length w') div 3"
        with w'(2) have q: "b < length nd1" "unat (k + 1) + i' < length (nd1 ! b)"
          "nd' ! b ! (unat (k + 1) + i') = batch_point w' b" by auto
        have e: "unat (k + 1) + i' = unat k + i" using u Suc by simp
        from q(1) len1 have bl: "b < length nd" by simp
        from q(2,3) lens1 [OF bl] bl show "b < length nd \<and> unat k + i < length (nd ! b)
              \<and> nd' ! b ! (unat k + i) = batch_point w' b"
          unfolding e by simp
      qed
      with w'(1) Suc show ?thesis by auto
    qed
  qed
  from len lens rows frame show ?case by blast
qed

lemma alloc_ndpoints_shape:
  "length (alloc_ndpoints d N) = d div 3"
  "b < d div 3 \<Longrightarrow> length ((alloc_ndpoints d N :: 'f ndarray) ! b) = unat N"
  by (simp_all add: alloc_ndpoints_def)

lemma unat_of_nat32: "n < 2 ^ 32 \<Longrightarrow> unat (of_nat n :: 32 word) = n"
  by (simp add: unat_of_nat)

lemma read_lines_result:
  assumes "read_lines stof (row # rest) = Inr (nd, N, d)" and "length (row # rest) < 2 ^ 32"
  shows "N = of_nat (length (row # rest)) \<and> d = pad3 (length (row_fields row))
       \<and> length nd = d div 3
       \<and> (\<forall>i < length (row # rest). \<exists>w. map stof (row_fields ((row # rest) ! i)) = map Some w
             \<and> (\<forall>b < pad3 (length w) div 3. b < d div 3 \<and> nd ! b ! i = batch_point w b))"
proof -
  from assms(1) obtain lines dm where
    cp: "count_pass stof (row # rest) 0 0 = Inr (lines, dm)"
    and fp: "fill_pass stof (row # rest) 0 (alloc_ndpoints dm lines) = Inr nd"
    and e: "N = lines" "d = dm"
    by (auto simp: read_lines_def split: sum.splits)
  from count_pass_first [OF cp assms(2)] have
    l: "lines = of_nat (length (row # rest))" and dm: "dm = pad3 (length (row_fields row))"
    by auto
  have "unat (0 :: 32 word) + length (row # rest) < 2 ^ 32" using assms(2) by simp
  note F = fill_pass_result [OF fp this]
  from F have len: "length nd = dm div 3" by (simp add: alloc_ndpoints_shape(1))
  have rows: "\<forall>i < length (row # rest). \<exists>w. map stof (row_fields ((row # rest) ! i)) = map Some w
           \<and> (\<forall>b < pad3 (length w) div 3. b < dm div 3 \<and> nd ! b ! i = batch_point w b)"
  proof (intro allI impI)
    fix i assume "i < length (row # rest)"
    with F obtain w where w: "map stof (row_fields ((row # rest) ! i)) = map Some w"
      "\<forall>b < pad3 (length w) div 3. b < length (alloc_ndpoints dm lines :: 'a ndarray)
           \<and> nd ! b ! (unat (0 :: 32 word) + i) = batch_point w b"
      by blast
    from w(2) have "\<forall>b < pad3 (length w) div 3. b < dm div 3 \<and> nd ! b ! i = batch_point w b"
      by (simp add: alloc_ndpoints_shape(1))
    with w(1) show "\<exists>w. map stof (row_fields ((row # rest) ! i)) = map Some w
           \<and> (\<forall>b < pad3 (length w) div 3. b < dm div 3 \<and> nd ! b ! i = batch_point w b)"
      by blast
  qed
  from l dm len rows e show ?thesis by simp
qed

text \<open>
  C4, as the code has it. When \<open>read_pc_data\<close> returns, \<open>*N\<close> is the number of lines
  read (every line of the file when each is shorter than the 1024-byte line buffer), and
  \<open>*d\<close> is the number of fields of the first line rounded up to the next multiple of 3.
\<close>

theorem read_pc_data_counts:
  assumes "read_pc_data ndebug stof fs path = (diag, Inr (nd, N, d))"
    and "fs path = Some rows" and "getlines rows = row # rest"
    and "length (getlines rows) < 2 ^ 32"
  shows "N = of_nat (length (getlines rows)) \<and> unat N = length (getlines rows)
       \<and> d = 3 * ((length (row_fields row) + 2) div 3)
       \<and> ((\<forall>l \<in> set rows. length l < 1024) \<longrightarrow> getlines rows = rows)"
proof -
  from assms(1,2,3) have rl: "read_lines stof (row # rest) = Inr (nd, N, d)"
    by (simp add: read_pc_data_def)
  from assms(3,4) have b: "length (row # rest) < 2 ^ 32" by simp
  from read_lines_result [OF rl b] have
    "N = of_nat (length (row # rest))" "d = pad3 (length (row_fields row))" by auto
  moreover have "unat (of_nat (length (row # rest)) :: 32 word) = length (row # rest)"
    using b by (intro unat_of_nat32)
  moreover have "(\<forall>l \<in> set rows. length l < 1024) \<longrightarrow> getlines rows = rows"
    by (simp add: getlines_def)
  ultimately show ?thesis using assms(3) by (simp add: pad3_eq)
qed

lemma replicate2: "replicate 2 x = [x, x]"
  by (simp add: numeral_2_eq_2)

lemma eval_rows_1234:
  "read_pc_data False stof_lit (\<lambda>_. Some [''1,2,3,4'']) ''points.csv''
     = (False, Inr ([[(Some 1, Some 2, Some 3)], [(Some 4, None, None)]], 1, 6))"
  by (simp add: read_pc_data_def getlines_def read_lines_def alloc_ndpoints_def
        tokenize_def scan_fields_def tok_loop.simps find_str_def substr_def stof_lit_def pad3_def
        batch_point_def make_float3_def vget_def upt_rec replicate2)

text \<open>
  C3, as the code has it. \<open>read_pc_data\<close> builds \<open>d / 3\<close> batch arrays, which is the
  number of fields of the first line divided by 3 and rounded up; and every line whose own
  field count rounds up to the same number of triples has its triple \<open>batch_point\<close>
  stored in every batch.
\<close>

theorem batches_of_input:
  assumes "read_pc_data ndebug stof fs path = (diag, Inr (nd, N, d))"
    and "fs path = Some rows" and "getlines rows = row # rest"
    and "length (getlines rows) < 2 ^ 32"
  shows "length nd = d div 3 \<and> d div 3 = (length (row_fields row) + 2) div 3
       \<and> (\<forall>i < length (getlines rows).
             (length (row_fields (getlines rows ! i)) + 2) div 3 = d div 3 \<longrightarrow>
             (\<exists>w. map stof (row_fields (getlines rows ! i)) = map Some w
                \<and> (\<forall>b < d div 3. nd ! b ! i = batch_point w b)))"
proof -
  from assms(1,2,3) have rl: "read_lines stof (row # rest) = Inr (nd, N, d)"
    by (simp add: read_pc_data_def)
  from assms(3,4) have b: "length (row # rest) < 2 ^ 32" by simp
  from read_lines_result [OF rl b] have d: "d = pad3 (length (row_fields row))"
    and len: "length nd = d div 3"
    and rows: "\<forall>i < length (row # rest). \<exists>w. map stof (row_fields ((row # rest) ! i)) = map Some w
             \<and> (\<forall>b < pad3 (length w) div 3. b < d div 3 \<and> nd ! b ! i = batch_point w b)"
    by auto
  have "\<exists>w. map stof (row_fields (getlines rows ! i)) = map Some w
            \<and> (\<forall>b < d div 3. nd ! b ! i = batch_point w b)"
    if i: "i < length (getlines rows)"
      and c: "(length (row_fields (getlines rows ! i)) + 2) div 3 = d div 3" for i
  proof -
    from rows i assms(3) obtain w where
      w: "map stof (row_fields (getlines rows ! i)) = map Some w"
      "\<forall>b < pad3 (length w) div 3. b < d div 3 \<and> nd ! b ! i = batch_point w b"
      by auto
    have "pad3 (length w) div 3 = d div 3"
      using c map_Some_length [OF w(1)] by (simp add: pad3_div)
    with w show ?thesis by auto
  qed
  with len d show ?thesis by (simp add: pad3_div)
qed

lemma eval_ragged:
  "read_pc_data False stof_lit (\<lambda>_. Some [''1,2,3,4,5,6'', ''7,8,9'']) ''points.csv''
     = (False, Inr ([[(Some 1, Some 2, Some 3), (Some 7, Some 8, Some 9)],
                     [(Some 4, Some 5, Some 6), (None, None, None)]], 2, 6))"
  by (simp add: read_pc_data_def getlines_def read_lines_def alloc_ndpoints_def
        tokenize_def scan_fields_def tok_loop.simps find_str_def substr_def stof_lit_def pad3_def
        batch_point_def make_float3_def vget_def upt_rec replicate2)

lemma coord3_batch_point:
  "k < 3 \<Longrightarrow> coord3 (batch_point w b) k = vget w (b * 3 + k)"
proof -
  assume "k < 3"
  then have "k = 0 \<or> k = 1 \<or> k = 2" by arith
  then show ?thesis by (auto simp: coord3_def batch_point_def make_float3_def)
qed

text \<open>
  C5, as the code has it. \<open>tokenize\<close> returns the field count of the row rounded up
  to a multiple of 3 (for a count \<open>n\<close> that is not a multiple of 3, \<open>(n / 3 + 1) * 3\<close>),
  and no field is lost: field \<open>i\<close> is component \<open>i mod 3\<close> of the point stored for
  the row in batch \<open>i div 3\<close>.
\<close>

theorem tokenize_keeps_fields:
  assumes "tokenize stof s '','' (Some nd) lineId = Inr (dm, res)"
  shows "\<exists>w nd'. res = Some nd' \<and> map stof (row_fields s) = map Some w
           \<and> dm = pad3 (length w)
           \<and> (length w mod 3 \<noteq> 0 \<longrightarrow> dm = (length w div 3 + 1) * 3)
           \<and> (\<forall>i < length w.
                 i div 3 < length nd' \<and> unat lineId < length (nd' ! (i div 3))
                 \<and> coord3 (nd' ! (i div 3) ! unat lineId) (i mod 3) = Some (w ! i))"
proof -
  from tokenize_Some_result [OF assms] obtain w nd' where r: "res = Some nd'"
    and w: "map stof (row_fields s) = map Some w"
    and d: "dm = pad3 (length (row_fields s))"
    and st: "store_batches w (unat lineId) [0..<dm div 3] nd = Inr nd'"
    by auto
  have lw: "length w = length (row_fields s)" using map_Some_length [OF w] .
  note S = store_batches_result [OF st]
  have "i div 3 < length nd' \<and> unat lineId < length (nd' ! (i div 3))
          \<and> coord3 (nd' ! (i div 3) ! unat lineId) (i mod 3) = Some (w ! i)"
    if i: "i < length w" for i
  proof -
    have "i div 3 < (length w + 2) div 3" using i by presburger
    then have m: "i div 3 \<in> set [0..<dm div 3]" using d lw by (simp add: pad3_div)
    with S have a: "i div 3 < length nd" "unat lineId < length (nd ! (i div 3))"
      "nd' ! (i div 3) ! unat lineId = batch_point w (i div 3)" by auto
    have "coord3 (batch_point w (i div 3)) (i mod 3) = vget w (i div 3 * 3 + i mod 3)"
      by (intro coord3_batch_point) simp
    also have "\<dots> = Some (w ! i)" using i by (simp add: vget_def)
    finally show ?thesis using a S by simp
  qed
  with r w d lw show ?thesis by (auto simp: pad3_def)
qed

lemma eval_two_rows:
  "read_pc_data False stof_lit (\<lambda>_. Some [''1,2,3'', ''4,5,6'']) ''points.csv''
     = (False, Inr ([[(Some 1, Some 2, Some 3), (Some 4, Some 5, Some 6)]], 2, 3))"
  by (simp add: read_pc_data_def getlines_def read_lines_def alloc_ndpoints_def
        tokenize_def scan_fields_def tok_loop.simps find_str_def substr_def stof_lit_def pad3_def
        batch_point_def make_float3_def vget_def upt_rec replicate2)

lemma getlines_two_rows: "getlines [''1,2,3'', ''4,5,6''] = ''1,2,3'' # [''4,5,6'']"
  by (simp add: getlines_def)

theorem read_pc_data_counts_witness:
  "unat (2 :: 32 word) = length (getlines [''1,2,3'', ''4,5,6''])
   \<and> (3 :: nat) = 3 * ((length (row_fields ''1,2,3'') + 2) div 3)
   \<and> getlines [''1,2,3'', ''4,5,6''] = [''1,2,3'', ''4,5,6'']"
proof -
  have f: "(\<lambda>_ :: string. Some [''1,2,3'', ''4,5,6'']) ''points.csv'' = Some [''1,2,3'', ''4,5,6'']"
    by simp
  have b: "length (getlines [''1,2,3'', ''4,5,6'']) < 2 ^ 32"
    by (simp add: getlines_def)
  show ?thesis
    using read_pc_data_counts [OF eval_two_rows f getlines_two_rows b] by simp
qed

theorem read_pc_data_dim_counterexample:
  "read_pc_data False stof_lit (\<lambda>_. Some [''1,2,3,4'']) ''points.csv''
     = (False, Inr ([[(Some 1, Some 2, Some 3)], [(Some 4, None, None)]], 1, 6))
   \<and> length (row_fields ''1,2,3,4'') = 4"
  using eval_rows_1234 by simp

theorem batches_of_input_witness:
  "length [[(Some (1 :: real), Some (2 :: real), Some (3 :: real)), (Some 4, Some 5, Some 6)]]
      = 3 div 3
   \<and> (3 :: nat) div 3 = (length (row_fields ''1,2,3'') + 2) div 3
   \<and> (\<exists>w. map stof_lit (row_fields ''4,5,6'') = map Some w
          \<and> [[(Some 1, Some 2, Some 3), (Some 4, Some 5, Some 6)]] ! 0 ! 1 = batch_point w 0)"
proof -
  have f: "(\<lambda>_ :: string. Some [''1,2,3'', ''4,5,6'']) ''points.csv'' = Some [''1,2,3'', ''4,5,6'']"
    by simp
  have b: "length (getlines [''1,2,3'', ''4,5,6'']) < 2 ^ 32"
    by (simp add: getlines_def)
  note T = batches_of_input [OF eval_two_rows f getlines_two_rows b]
  from T have r: "\<forall>i < length (getlines [''1,2,3'', ''4,5,6'']).
             (length (row_fields (getlines [''1,2,3'', ''4,5,6''] ! i)) + 2) div 3 = 3 div 3 \<longrightarrow>
             (\<exists>w. map stof_lit (row_fields (getlines [''1,2,3'', ''4,5,6''] ! i)) = map Some w
                \<and> (\<forall>b < 3 div 3.
                     [[(Some 1, Some 2, Some 3), (Some 4, Some 5, Some 6)]] ! b ! i
                       = batch_point w b))"
    by blast
  have "\<exists>w. map stof_lit (row_fields ''4,5,6'') = map Some w
          \<and> (\<forall>b < 3 div 3.
                [[(Some 1, Some 2, Some 3), (Some 4, Some 5, Some 6)]] ! b ! 1 = batch_point w b)"
    using r [rule_format, of 1] by (simp add: getlines_def)
  then have "\<exists>w. map stof_lit (row_fields ''4,5,6'') = map Some w
          \<and> [[(Some 1, Some 2, Some 3), (Some 4, Some 5, Some 6)]] ! 0 ! 1 = batch_point w 0"
    by auto
  with T show ?thesis by simp
qed

theorem ragged_rows_counterexample:
  "read_pc_data False stof_lit (\<lambda>_. Some [''1,2,3,4,5,6'', ''7,8,9'']) ''points.csv''
     = (False, Inr ([[(Some 1, Some 2, Some 3), (Some 7, Some 8, Some 9)],
                     [(Some 4, Some 5, Some 6), (None, None, None)]], 2, 6))
   \<and> [[(Some (1 :: real), Some (2 :: real), Some (3 :: real)), (Some 7, Some 8, Some 9)],
        [(Some 4, Some 5, Some 6), (None, None, None)]] ! 1 ! 1 = (None, None, None)"
  using eval_ragged by simp

lemma eval_tokenize_1234:
  "tokenize stof_lit ''1,2,3,4'' '','' (Some [[(None, None, None)], [(None, None, None)]]) 0
     = Inr (6, Some [[(Some 1, Some 2, Some 3)], [(Some 4, None, None)]])"
  by (simp add: tokenize_def scan_fields_def tok_loop.simps find_str_def substr_def stof_lit_def
        pad3_def batch_point_def make_float3_def vget_def upt_rec)

theorem tokenize_keeps_fields_witness:
  "\<exists>w nd'. Some [[(Some 1, Some 2, Some 3)], [(Some 4, None, None)]] = Some nd'
      \<and> map stof_lit (row_fields ''1,2,3,4'') = map Some w
      \<and> (6 :: nat) = pad3 (length w)
      \<and> (length w mod 3 \<noteq> 0 \<longrightarrow> (6 :: nat) = (length w div 3 + 1) * 3)
      \<and> (\<forall>i < length w.
            i div 3 < length nd' \<and> unat (0 :: 32 word) < length (nd' ! (i div 3))
            \<and> coord3 (nd' ! (i div 3) ! unat (0 :: 32 word)) (i mod 3) = Some (w ! i))"
  by (rule tokenize_keeps_fields [OF eval_tokenize_1234])

theorem tokenize_padding_counterexample:
  "tokenize stof_lit ''1,2,3,4'' '','' (Some [[(None, None, None)], [(None, None, None)]]) 0
     = Inr (6, Some [[(Some 1, Some 2, Some 3)], [(Some 4, None, None)]])
   \<and> map stof_lit (row_fields ''1,2,3,4'') = [Some 1, Some 2, Some 3, Some 4]"
  using eval_tokenize_1234 by (simp add: stof_lit_def)

section \<open>Properties of the verification\<close>

lemma row_loop_fold:
  "row_loop A nd r data K q n j st = Some st' \<Longrightarrow>
     fst st' = foldl (account A r) (fst st)
                 (map (entry_dist A nd q)
                    (takeWhile (\<lambda>p. p \<noteq> UINT_MAX)
                       (map (\<lambda>m. data ! slot K q (j + of_nat m)) [0..<n])))"
proof (induction n arbitrary: j st)
  case 0
  then show ?case by simp
next
  case (Suc n)
  let ?p = "data ! slot K q j"
  have m: "map (\<lambda>m. data ! slot K q (j + of_nat m)) [0..<Suc n]
             = ?p # map (\<lambda>m. data ! slot K q ((j + 1) + of_nat m)) [0..<n]"
    by (simp add: map_upt_Suc add.assoc del: upt_Suc)
  show ?case
  proof (cases "?p = UINT_MAX")
    case True
    with Suc.prems have "st' = st" by (simp split: if_splits)
    with True show ?thesis unfolding m by simp
  next
    case False
    with Suc.prems obtain pp pq where
      pp: "point_at nd 0 (unat ?p) = Some pp" and pq: "point_at nd 0 (unat q) = Some pq"
      and rec: "row_loop A nd r data K q n (j + 1)
                  (account A r (fst st) (dist2 A pp pq),
                   snd st @ [ReadPoints 0 ?p q, PrintIndex ?p]) = Some st'"
      by (auto simp: Let_def split: if_splits option.splits)
    have e: "entry_dist A nd q ?p = dist2 A pp pq" by (simp add: entry_dist_def pp pq)
    from Suc.IH [OF rec] show ?thesis unfolding m using False e by simp
  qed
qed

lemma query_loop_fold:
  "query_loop A nd r data K n q st = Some st' \<Longrightarrow>
     fst st' = foldl (account A r) (fst st)
                 (concat (map (\<lambda>i. map (entry_dist A nd (q + of_nat i))
                                     (scanned_row data K (q + of_nat i))) [0..<n]))"
proof (induction n arbitrary: q st)
  case 0
  then show ?case by simp
next
  case (Suc n)
  from Suc.prems obtain t out where
    row: "row_loop A nd r data K q (unat K) 0 st = Some (t, out)"
    and rec: "query_loop A nd r data K n (q + 1) (t, out @ [EndRow]) = Some st'"
    by (auto split: option.splits)
  from row_loop_fold [OF row] have
    t: "t = foldl (account A r) (fst st) (map (entry_dist A nd q) (scanned_row data K q))"
    by (simp add: scanned_row_def)
  have m: "map (\<lambda>i. map (entry_dist A nd (q + of_nat i)) (scanned_row data K (q + of_nat i)))
             [0..<Suc n]
           = map (entry_dist A nd q) (scanned_row data K q)
             # map (\<lambda>i. map (entry_dist A nd ((q + 1) + of_nat i))
                          (scanned_row data K ((q + 1) + of_nat i))) [0..<n]"
    by (simp add: map_upt_Suc add.assoc del: upt_Suc)
  from Suc.IH [OF rec] show ?case unfolding m using t by simp
qed

lemma verify_fold:
  assumes "verify A nd r data K N = Some (t, out)"
  shows "t = foldl (account A r)
           \<lparr>totalNeighbors = 0, totalWrongNeighbors = 0, totalWrongDist = dzero A\<rparr>
           (examined A nd data K N)"
  using query_loop_fold [OF assms [unfolded verify_def]] by (simp add: examined_def)

lemma account_alt:
  "account A r t d =
     (if is_wrong A r d
      then \<lparr>totalNeighbors = totalNeighbors t + 1,
            totalWrongNeighbors = totalWrongNeighbors t + 1,
            totalWrongDist = dadd A (totalWrongDist t) (fsqrt A d)\<rparr>
      else \<lparr>totalNeighbors = totalNeighbors t + 1,
            totalWrongNeighbors = totalWrongNeighbors t,
            totalWrongDist = totalWrongDist t\<rparr>)"
  by (simp add: account_def is_wrong_def Let_def)

lemma foldl_account:
  "foldl (account A r) t ds =
     \<lparr>totalNeighbors = totalNeighbors t + of_nat (length ds),
      totalWrongNeighbors = totalWrongNeighbors t + of_nat (length (filter (is_wrong A r) ds)),
      totalWrongDist = foldl (dadd A) (totalWrongDist t)
                         (map (fsqrt A) (filter (is_wrong A r) ds))\<rparr>"
proof (induction ds arbitrary: t)
  case Nil
  show ?case by simp
next
  case (Cons d ds)
  show ?case
    unfolding foldl_Cons Cons.IH
    by (simp add: account_alt add.assoc)
qed


text \<open>
  C6, as the code has it. After the verification, \<open>totalNeighbors\<close> counts the examined
  entries, \<open>totalWrongNeighbors\<close> those whose squared distance exceeds the squared
  radius, and \<open>totalWrongDist\<close> is the sum of the square roots of those squared
  distances: the whole distances, not their excess over the radius. The report holds an
  average wrong distance only when an examined entry is wrong, and it is that sum divided
  by the count; it is there whenever the count is not 0. Wrong is what the program
  tests, \<open>dists > radius * radius\<close> in its own \<open>float\<close> arithmetic (\<open>is_wrong\<close>); the
  statement holds for every arithmetic \<open>A\<close>.
\<close>

theorem verification_tally:
  assumes "verify A nd r data K N = Some (t, out)" and "report A N t = Some rep"
  shows "totalNeighbors t = of_nat (length (examined A nd data K N))
       \<and> totalWrongNeighbors t
           = of_nat (length (filter (is_wrong A r) (examined A nd data K N)))
       \<and> totalWrongDist t
           = foldl (dadd A) (dzero A)
               (map (fsqrt A) (filter (is_wrong A r) (examined A nd data K N)))
       \<and> (\<forall>x. AvgWrongDist x \<in> set rep \<longrightarrow>
             filter (is_wrong A r) (examined A nd data K N) \<noteq> []
             \<and> x = ddiv A (totalWrongDist t) (totalWrongNeighbors t))
       \<and> (totalWrongNeighbors t \<noteq> 0 \<longrightarrow>
             AvgWrongDist (ddiv A (totalWrongDist t) (totalWrongNeighbors t)) \<in> set rep)"
proof -
  note t = verify_fold [OF assms(1), unfolded foldl_account]
  have n: "totalNeighbors t = of_nat (length (examined A nd data K N))"
    by (subst t) simp
  have w: "totalWrongNeighbors t
             = of_nat (length (filter (is_wrong A r) (examined A nd data K N)))"
    by (subst t) simp
  have d: "totalWrongDist t
             = foldl (dadd A) (dzero A)
                 (map (fsqrt A) (filter (is_wrong A r) (examined A nd data K N)))"
    by (subst t) simp
  from assms(2) have N: "N \<noteq> 0"
    and rep: "rep = [SanityDone, AvgNeighbors (totalNeighbors t div N),
                     AvgWrong (totalWrongNeighbors t div N)]
                 @ (if totalWrongNeighbors t \<noteq> 0
                    then [AvgWrongDist (ddiv A (totalWrongDist t) (totalWrongNeighbors t))]
                    else [])"
    by (auto simp: report_def split: if_splits)
  have p1: "\<forall>x. AvgWrongDist x \<in> set rep \<longrightarrow>
             filter (is_wrong A r) (examined A nd data K N) \<noteq> []
             \<and> x = ddiv A (totalWrongDist t) (totalWrongNeighbors t)"
  proof (intro allI impI)
    fix x assume "AvgWrongDist x \<in> set rep"
    with rep have nz: "totalWrongNeighbors t \<noteq> 0"
      and x: "x = ddiv A (totalWrongDist t) (totalWrongNeighbors t)"
      by (auto split: if_splits)
    from nz w have "filter (is_wrong A r) (examined A nd data K N) \<noteq> []" by auto
    with x show "filter (is_wrong A r) (examined A nd data K N) \<noteq> []
             \<and> x = ddiv A (totalWrongDist t) (totalWrongNeighbors t)" by simp
  qed
  have p2: "totalWrongNeighbors t \<noteq> 0 \<longrightarrow>
             AvgWrongDist (ddiv A (totalWrongDist t) (totalWrongNeighbors t)) \<in> set rep"
    using rep by simp
  from n w d p1 p2 show ?thesis by blast
qed

lemma sqrt25: "sqrt 25 = 5"
  by (rule real_sqrt_unique) simp_all

lemma query_loop_numeral:
  "query_loop A nd r data K (numeral k) q st
     = query_loop A nd r data K (Suc (pred_numeral k)) q st"
  by (simp add: numeral_eq_Suc)

lemma row_loop_numeral:
  "row_loop A nd r data K q (numeral k) j st
     = row_loop A nd r data K q (Suc (pred_numeral k)) j st"
  by (simp add: numeral_eq_Suc)

lemma eval_verify_far:
  "verify real_arith [[(Some 0, Some 0, Some 0), (Some 3, Some 4, Some 0)]] 2 [1, 0] 1 2
     = Some (\<lparr>totalNeighbors = 2, totalWrongNeighbors = 2, totalWrongDist = 10\<rparr>,
             [ReadPoints 0 1 0, PrintIndex 1, EndRow, ReadPoints 0 0 1, PrintIndex 0, EndRow])"
  by (simp add: verify_def query_loop_numeral row_loop_numeral slot_def UINT_MAX_def
        point_at_def account_def dist2_def sub3_def dot_def real_arith_def sqrt25)


lemma eval_report_far:
  "report real_arith 2 \<lparr>totalNeighbors = 2, totalWrongNeighbors = 2, totalWrongDist = 10\<rparr>
     = Some [SanityDone, AvgNeighbors 1, AvgWrong 1, AvgWrongDist 5]"
  by (simp add: report_def real_arith_def)

lemma eval_examined_far:
  "examined real_arith [[(Some 0, Some 0, Some 0), (Some 3, Some 4, Some 0)]] [1, 0] 1 2
     = [25, 25]"
  by (simp add: examined_def scanned_row_def entry_dist_def upt_rec slot_def UINT_MAX_def
        point_at_def dist2_def sub3_def dot_def real_arith_def)

theorem verification_tally_witness:
  "(2 :: 32 word)
     = of_nat (length (examined real_arith
                         [[(Some 0, Some 0, Some 0), (Some 3, Some 4, Some 0)]] [1, 0] 1 2))
   \<and> (10 :: real)
       = foldl (dadd real_arith) (dzero real_arith)
           (map (fsqrt real_arith)
              (filter (is_wrong real_arith 2)
                 (examined real_arith
                    [[(Some 0, Some 0, Some 0), (Some 3, Some 4, Some 0)]] [1, 0] 1 2)))
   \<and> AvgWrongDist (ddiv real_arith 10 2)
       \<in> set [SanityDone, AvgNeighbors 1, AvgWrong 1, AvgWrongDist (5 :: real)]"
  using verification_tally [OF eval_verify_far eval_report_far] by simp

theorem excess_distance_counterexample:
  "map_option fst
     (verify real_arith [[(Some 0, Some 0, Some 0), (Some 3, Some 4, Some 0)]] 2 [1, 0] 1 2)
     = Some \<lparr>totalNeighbors = 2, totalWrongNeighbors = 2, totalWrongDist = 10\<rparr>
   \<and> report real_arith 2 \<lparr>totalNeighbors = 2, totalWrongNeighbors = 2, totalWrongDist = 10\<rparr>
       = Some [SanityDone, AvgNeighbors 1, AvgWrong 1, AvgWrongDist 5]
   \<and> examined real_arith [[(Some 0, Some 0, Some 0), (Some 3, Some 4, Some 0)]] [1, 0] 1 2
       = [25, 25]
   \<and> excess_sum_spec 2 [25, 25] = 6"
  by (simp add: eval_verify_far eval_report_far eval_examined_far excess_sum_spec_def sqrt25)

section \<open>Properties of the program\<close>

lemma parse_args_help:
  "a = ''--help'' \<or> a = ''-h'' \<Longrightarrow>
     parse_args stof atoi (a # rest) st = ([Usage], Inl (Exit 0))"
  by (erule disjE) (simp_all add: parse_args.simps)

lemma parse_args_file:
  "a = ''--file'' \<or> a = ''-f'' \<Longrightarrow>
     parse_args stof atoi (a # rest) st
       = (case rest of
            [] \<Rightarrow> ([Usage], Inl (Exit 0))
          | v # rest' \<Rightarrow> parse_args stof atoi rest' (st\<lparr>outfile := v\<rparr>))"
  by (erule disjE) (simp_all add: parse_args.simps)

lemma parse_args_knn:
  "a = ''--knn'' \<or> a = ''-k'' \<Longrightarrow>
     parse_args stof atoi (a # rest) st
       = (case rest of
            [] \<Rightarrow> ([Usage], Inl (Exit 0))
          | v # rest' \<Rightarrow> parse_args stof atoi rest' (st\<lparr>knn := atoi v\<rparr>))"
  by (erule disjE) (simp_all add: parse_args.simps)

lemma parse_args_radius:
  "a = ''--radius'' \<or> a = ''-r'' \<Longrightarrow>
     parse_args stof atoi (a # rest) st
       = (case rest of
            [] \<Rightarrow> ([Usage], Inl (Exit 0))
          | v # rest' \<Rightarrow>
              (case stof v of
                 None \<Rightarrow> ([], Inl Abort)
               | Some r \<Rightarrow> parse_args stof atoi rest' (st\<lparr>radius := r\<rparr>)))"
  by (erule disjE) (simp_all add: parse_args.simps)

lemma parse_args_stop:
  "\<not> takes_value a \<Longrightarrow>
     parse_args stof atoi (a # rest) st
       = ((if a = ''--help'' \<or> a = ''-h'' then [Usage] else [UnknownOption a, Usage]),
          Inl (Exit 0))"
  by (simp add: takes_value_def parse_args.simps)

lemma parse_args_step:
  fixes ev :: "'d event list"
  assumes p: "parse_args stof atoi (arg # rest) st = (ev, res)"
  shows "(ev = [Usage] \<and> res = Inl (Exit 0))
     \<or> (ev = [UnknownOption arg, Usage] \<and> res = Inl (Exit 0))
     \<or> (ev = [] \<and> res = Inl Abort)
     \<or> (\<exists>v rest' st'. rest = v # rest' \<and> parse_args stof atoi rest' st' = (ev, res))"
proof (cases "takes_value arg")
  case False
  from p [unfolded parse_args_stop [OF False]] show ?thesis
    by (cases "arg = ''--help'' \<or> arg = ''-h''") simp_all
next
  case True
  then consider (c_file) "arg = ''--file'' \<or> arg = ''-f''"
    | (c_knn) "arg = ''--knn'' \<or> arg = ''-k''"
    | (c_radius) "arg = ''--radius'' \<or> arg = ''-r''"
    unfolding takes_value_def by argo
  then show ?thesis
  proof cases
    case c_file
    from p [unfolded parse_args_file [OF c_file]] show ?thesis
      by (cases rest) (simp, simp, blast)
  next
    case c_knn
    from p [unfolded parse_args_knn [OF c_knn]] show ?thesis
      by (cases rest) (simp, simp, blast)
  next
    case c_radius
    note q = p [unfolded parse_args_radius [OF c_radius]]
    show ?thesis
    proof (cases rest)
      case Nil
      with q show ?thesis by simp
    next
      case (Cons v rest')
      show ?thesis
      proof (cases "stof v")
        case None
        with q Cons show ?thesis by simp
      next
        case (Some x)
        with q Cons have "parse_args stof atoi rest' (st\<lparr>radius := x\<rparr>) = (ev, res)"
          by simp
        with Cons show ?thesis by blast
      qed
    qed
  qed
qed

lemma parse_args_Inr_no_events:
  "parse_args stof atoi args st = (ev, Inr st') \<Longrightarrow> ev = []"
proof (induction "length args" arbitrary: args st rule: less_induct)
  case less
  show ?case
  proof (cases args)
    case Nil
    with less.prems show ?thesis by simp
  next
    case (Cons arg rest)
    from parse_args_step [OF less.prems [unfolded Cons]]
    obtain v rest' st1 where "rest = v # rest'"
      "parse_args stof atoi rest' st1 = (ev, Inr st')"
      by auto
    moreover then have "length rest' < length args" using Cons by simp
    ultimately show ?thesis using less.hyps by blast
  qed
qed

lemma parse_args_passes:
  "passes_args stof pre \<Longrightarrow>
     \<exists>st'. parse_args stof atoi (pre @ rest) st = parse_args stof atoi rest st'"
proof (induction stof pre arbitrary: st rule: passes_args.induct)
  case (1 stof)
  show ?case by auto
next
  case (2 stof a)
  then show ?case by simp
next
  case (3 stof a v rest')
  from "3.prems" have p: "passes_args stof rest'" by simp
  from "3.prems" consider
      (c_file) "a = ''--file'' \<or> a = ''-f''"
    | (c_knn) "a = ''--knn'' \<or> a = ''-k''"
    | (c_radius) r where "a = ''--radius'' \<or> a = ''-r''" "stof v = Some r"
    by auto
  then show ?case
  proof cases
    case c_file
    then have "parse_args stof atoi ((a # v # rest') @ rest) st
                 = parse_args stof atoi (rest' @ rest) (st\<lparr>outfile := v\<rparr>)"
      by (simp add: parse_args_file [OF c_file])
    with "3.IH" [OF p] show ?thesis by metis
  next
    case c_knn
    then have "parse_args stof atoi ((a # v # rest') @ rest) st
                 = parse_args stof atoi (rest' @ rest) (st\<lparr>knn := atoi v\<rparr>)"
      by (simp add: parse_args_knn [OF c_knn])
    with "3.IH" [OF p] show ?thesis by metis
  next
    case c_radius
    then have "parse_args stof atoi ((a # v # rest') @ rest) st
                 = parse_args stof atoi (rest' @ rest) (st\<lparr>radius := r\<rparr>)"
      by (simp add: parse_args_radius [OF c_radius(1)] c_radius(2))
    with "3.IH" [OF p] show ?thesis by metis
  qed
qed

text \<open>
  C9, as the code has it. When the argument loop, scanning from the left, has passed
  flags with their values and then meets \<open>--help\<close>, \<open>-h\<close> or an argument that is no
  known flag, the program prints the usage message (after the line naming an unknown
  option) and exits with code 0, whatever follows on the command line.
\<close>

theorem usage_exit_zero:
  fixes A :: "('f, 'd) arith"
  assumes "passes_args (env_stof E) pre" and "\<not> takes_value a"
  shows "main A E (argv0 # pre @ a # rest)
           = ((if a = ''--help'' \<or> a = ''-h'' then [Usage] else [UnknownOption a, Usage]),
              Exit 0)"
proof -
  define evs :: "'d event list" where
    "evs = (if a = ''--help'' \<or> a = ''-h'' then [Usage] else [UnknownOption a, Usage])"
  from parse_args_passes [OF assms(1)] obtain st' where
    "(parse_args (env_stof E) (env_atoi E) (pre @ a # rest)
        \<lparr>outfile = [], knn = 50, radius = ftwo A\<rparr> :: 'd event list \<times> _)
       = parse_args (env_stof E) (env_atoi E) (a # rest) st'"
    by blast
  then have eq: "parse_args (env_stof E) (env_atoi E) (pre @ a # rest)
        \<lparr>outfile = [], knn = 50, radius = ftwo A\<rparr> = (evs, Inl (Exit 0))"
    by (simp only: parse_args_stop [OF assms(2)] evs_def)
  have "main A E (argv0 # pre @ a # rest) = (evs, Exit 0)"
    by (simp add: main_def eq)
  then show ?thesis by (simp only: evs_def)
qed

theorem usage_exit_zero_witness:
  "passes_args stof_lit [''-f'', ''points.csv'', ''-r'', ''3''] \<and> \<not> takes_value ''--bogus''
   \<and> main real_arith (demo_env (\<lambda>_. None) False 3 (\<lambda>_. []))
        (''prog'' # [''-f'', ''points.csv'', ''-r'', ''3''] @ ''--bogus'' # [''-k'', ''5''])
       = ([UnknownOption ''--bogus'', Usage], Exit 0)"
proof -
  have p: "passes_args (env_stof (demo_env (\<lambda>_. None) False 3 (\<lambda>_. [])))
             [''-f'', ''points.csv'', ''-r'', ''3'']"
    by (simp add: demo_env_def stof_lit_def)
  have t: "\<not> takes_value ''--bogus''" by (simp add: takes_value_def)
  from usage_exit_zero [OF p t, of real_arith "''prog''" "[''-k'', ''5'']"] p t
  show ?thesis by (simp add: demo_env_def)
qed

theorem unknown_flag_counterexample:
  "main real_arith (demo_env (\<lambda>_. None) False 3 (\<lambda>_. []))
     [''prog'', ''-r'', ''abc'', ''--bogus''] = ([], Abort)"
  by (simp add: main_def demo_env_def stof_lit_def parse_args.simps)

lemma builds_append [simp]: "builds (xs @ ys) = builds xs @ builds ys"
  by (induction xs rule: builds.induct) auto

lemma launches_append [simp]: "launches (xs @ ys) = launches xs @ launches ys"
  by (induction xs rule: launches.induct) auto

lemma reads_batch0_append [simp]:
  "reads_batch0 (xs @ ys) \<longleftrightarrow> reads_batch0 xs \<and> reads_batch0 ys"
  unfolding reads_batch0_def by (simp only: set_append Un_iff) blast

lemma reads_batch0_Nil [simp]: "reads_batch0 []"
  by (simp add: reads_batch0_def)

lemma reads_batch0_Cons [simp]:
  "reads_batch0 (e # es) \<longleftrightarrow> (\<forall>b p q. e = ReadPoints b p q \<longrightarrow> b = 0) \<and> reads_batch0 es"
  unfolding reads_batch0_def by (simp only: set_simps insert_iff) blast

lemma parse_args_quiet:
  "parse_args stof atoi args st = (ev, res) \<Longrightarrow>
     builds ev = [] \<and> launches ev = [] \<and> reads_batch0 ev"
proof (induction "length args" arbitrary: args st rule: less_induct)
  case less
  show ?case
  proof (cases args)
    case Nil
    with less.prems show ?thesis by simp
  next
    case (Cons arg rest)
    from parse_args_step [OF less.prems [unfolded Cons]]
    consider "ev = [Usage]" | "ev = [UnknownOption arg, Usage]" | "ev = []"
      | v rest' st' where "rest = v # rest'" "parse_args stof atoi rest' st' = (ev, res)"
      by blast
    then show ?thesis
    proof cases
      case 4
      then have "length rest' < length args" using Cons by simp
      from less.hyps [OF this 4(2)] show ?thesis .
    qed simp_all
  qed
qed

lemma build_loop_events:
  "build_loop fails bs = (ev :: 'd event list, ok) \<Longrightarrow>
     launches ev = [] \<and> reads_batch0 ev
     \<and> builds ev = takeWhile (\<lambda>b. \<not> fails (AccelBuild b)) bs
     \<and> (ok \<longleftrightarrow> (\<forall>b \<in> set bs. \<not> fails (AccelBuild b)))"
proof (induction bs arbitrary: ev ok)
  case Nil
  then show ?case by auto
next
  case (Cons b bs)
  show ?case
  proof (cases "fails (AccelBuild b)")
    case True
    with Cons.prems show ?thesis by auto
  next
    case False
    obtain ev' :: "'d event list" and ok' where r: "build_loop fails bs = (ev', ok')"
      by (cases "build_loop fails bs :: 'd event list \<times> bool")
    with Cons.prems False have e: "ev = BuildGas b # ev'" "ok = ok'" by auto
    from Cons.IH [OF r] e False show ?thesis by (auto simp: reads_batch0_def)
  qed
qed

lemma createGeometry_events:
  assumes "createGeometry fails n = (ev, ok)"
  shows "launches ev = [] \<and> reads_batch0 ev
       \<and> (ok \<longrightarrow> builds ev = [0..<n])
       \<and> (\<forall>b < n. fails (AccelBuild b) \<longrightarrow> \<not> ok)
       \<and> ((\<forall>s. \<not> fails s) \<longrightarrow> ok)"
proof (cases "upload_loop fails [0..<n]")
  case False
  with assms have "ev = []" "\<not> ok" by (auto simp: createGeometry_def)
  moreover have "\<exists>s. fails s"
  proof -
    have "upload_loop fails bs \<or> (\<exists>s. fails s)" for bs
      by (induction bs) auto
    with False show ?thesis by blast
  qed
  ultimately show ?thesis by auto
next
  case True
  with assms have b: "build_loop fails [0..<n] = (ev, ok)" by (simp add: createGeometry_def)
  note B = build_loop_events [OF b]
  have "ok \<longrightarrow> builds ev = [0..<n]"
  proof
    assume ok
    with B have "\<forall>b \<in> set [0..<n]. \<not> fails (AccelBuild b)" by simp
    then have "takeWhile (\<lambda>b. \<not> fails (AccelBuild b)) [0..<n] = [0..<n]"
      by (intro takeWhile_eq_all_conv [THEN iffD2]) simp
    with B show "builds ev = [0..<n]" by simp
  qed
  with B show ?thesis by auto
qed

lemma row_loop_events:
  "row_loop A nd r data K q n j st = Some st' \<Longrightarrow>
     \<exists>evs. snd st' = snd st @ evs \<and> builds evs = [] \<and> launches evs = [] \<and> reads_batch0 evs"
proof (induction n arbitrary: j st)
  case 0
  then show ?case by auto
next
  case (Suc n)
  let ?p = "data ! slot K q j"
  show ?case
  proof (cases "?p = UINT_MAX")
    case True
    with Suc.prems have "st' = st" by (simp split: if_splits)
    then show ?thesis by auto
  next
    case False
    with Suc.prems obtain t1 where
      rec: "row_loop A nd r data K q n (j + 1)
              (t1, snd st @ [ReadPoints 0 ?p q, PrintIndex ?p]) = Some st'"
      by (auto simp: Let_def split: if_splits option.splits)
    from Suc.IH [OF rec] obtain evs where
      e: "snd st' = (snd st @ [ReadPoints 0 ?p q, PrintIndex ?p]) @ evs"
      "builds evs = []" "launches evs = []" "reads_batch0 evs"
      by auto
    show ?thesis
    proof (intro exI conjI)
      show "snd st' = snd st @ ([ReadPoints 0 ?p q, PrintIndex ?p] @ evs)" using e(1) by simp
      show "builds ([ReadPoints 0 ?p q, PrintIndex ?p] @ evs) = []" using e(2) by simp
      show "launches ([ReadPoints 0 ?p q, PrintIndex ?p] @ evs) = []" using e(3) by simp
      show "reads_batch0 ([ReadPoints 0 ?p q, PrintIndex ?p] @ evs)"
        using e(4) by (auto simp: reads_batch0_def)
    qed
  qed
qed

lemma query_loop_events:
  "query_loop A nd r data K n q st = Some st' \<Longrightarrow>
     \<exists>evs. snd st' = snd st @ evs \<and> builds evs = [] \<and> launches evs = [] \<and> reads_batch0 evs"
proof (induction n arbitrary: q st)
  case 0
  then show ?case by auto
next
  case (Suc n)
  from Suc.prems obtain t out where
    row: "row_loop A nd r data K q (unat K) 0 st = Some (t, out)"
    and rec: "query_loop A nd r data K n (q + 1) (t, out @ [EndRow]) = Some st'"
    by (auto split: option.splits)
  from row_loop_events [OF row] obtain e1 where
    e1: "out = snd st @ e1" "builds e1 = []" "launches e1 = []" "reads_batch0 e1" by auto
  from Suc.IH [OF rec] obtain e2 where
    e2: "snd st' = (out @ [EndRow]) @ e2" "builds e2 = []" "launches e2 = []" "reads_batch0 e2"
    by auto
  show ?case
  proof (intro exI conjI)
    show "snd st' = snd st @ (e1 @ [EndRow] @ e2)" using e1(1) e2(1) by simp
    show "builds (e1 @ [EndRow] @ e2) = []" using e1(2) e2(2) by simp
    show "launches (e1 @ [EndRow] @ e2) = []" using e1(3) e2(3) by simp
    show "reads_batch0 (e1 @ [EndRow] @ e2)" using e1(4) e2(4)
      by simp
  qed
qed

lemma verify_events:
  assumes "verify A nd r data K N = Some (t, out)"
  shows "builds out = [] \<and> launches out = [] \<and> reads_batch0 out"
  using query_loop_events [OF assms [unfolded verify_def]] by auto

lemma report_events:
  "report A N t = Some rep \<Longrightarrow> builds rep = [] \<and> launches rep = [] \<and> reads_batch0 rep"
  by (auto simp: report_def reads_batch0_def split: if_splits)

lemma launchSubframe_cases:
  fixes evl :: "'d event list"
  assumes "launchSubframe fails prog buf N K b = (evl, res)"
  shows "(evl = [] \<and> res = None \<and> fails PrepareLaunch)
       \<or> (evl = [Launch b] \<and> res = None \<and> fails LaunchSync)
       \<or> (evl = [Launch b] \<and> (\<exists>data. res = Some data))"
  using assms by (auto simp: launchSubframe_def Let_def split: if_splits)

lemma run_device_shape:
  fixes A :: "('f, 'd) arith" and ev :: "'d event list"
  assumes r: "run_device A E st nd N d = (ev, out)"
    and nf: "\<not> (env_fails E DeviceSetup \<or> env_fails E CreateContext)"
    and g: "createGeometry (env_fails E) (d div 3) = (evg, True)"
  shows "(ev = evg @ [CaughtException] \<and> out = Exit 1 \<and> (\<exists>s. env_fails E s))
       \<or> (\<exists>rest. ev = evg @ [Launch 0] @ rest
              \<and> builds rest = [] \<and> launches rest = [] \<and> reads_batch0 rest)"
proof (cases "env_fails E CreatePipeline \<or> env_fails E CreateSBT \<or> env_fails E AllocOutput")
  case True
  then have "\<exists>s. env_fails E s" by blast
  with True r nf g show ?thesis by (simp add: run_device_def caught_def)
next
  case c1: False
  obtain evl :: "'d event list" and res where
    ls: "launchSubframe (env_fails E) (env_device E)
           (alloc_output (env_raw E) (N * knn st)) N (knn st) 0 = (evl, res)"
    by (cases "launchSubframe (env_fails E) (env_device E)
                 (alloc_output (env_raw E) (N * knn st)) N (knn st) 0
                 :: 'd event list \<times> 32 word list option")
  from launchSubframe_cases [OF ls]
  consider (prep) "evl = []" "res = None" "env_fails E PrepareLaunch"
    | (sync) "evl = [Launch 0]" "res = None"
    | (ok) data where "evl = [Launch 0]" "res = Some data"
    by blast
  then show ?thesis
  proof cases
    case prep
    with r nf g c1 ls have "ev = evg @ [CaughtException]" "out = Exit 1"
      by (simp_all add: run_device_def caught_def)
    with prep(3) show ?thesis by blast
  next
    case sync
    with r nf g c1 ls have "ev = evg @ [Launch 0] @ [CaughtException]"
      by (simp add: run_device_def caught_def)
    then show ?thesis by simp
  next
    case ok
    show ?thesis
    proof (cases "env_fails E HostCopy")
      case True
      with r nf g c1 ls ok have "ev = evg @ [Launch 0] @ [CaughtException]"
        by (simp add: run_device_def caught_def Let_def)
      then show ?thesis by simp
    next
      case c2: False
      show ?thesis
      proof (cases "verify A nd (radius st) data (knn st) N")
        case None
        with r nf g c1 c2 ls ok have "ev = evg @ [Launch 0] @ []"
          by (simp add: run_device_def caught_def Let_def)
        then show ?thesis by (intro disjI2 exI [of _ "[]"]) simp
      next
        case (Some v)
        obtain t outv where v: "v = (t, outv)" by (cases v)
        from verify_events [OF Some [unfolded v]] have
          o: "builds outv = []" "launches outv = []" "reads_batch0 outv" by auto
        show ?thesis
        proof (cases "report A N t")
          case None
          with r nf g c1 c2 ls ok Some v have "ev = evg @ [Launch 0] @ outv"
            by (simp add: run_device_def caught_def Let_def)
          with o show ?thesis by blast
        next
          case rp: (Some rep)
          from report_events [OF rp] have
            p: "builds rep = []" "launches rep = []" "reads_batch0 rep" by auto
          show ?thesis
          proof (cases "env_fails E Cleanup")
            case True
            with r nf g c1 c2 ls ok Some v rp
            have "ev = evg @ [Launch 0] @ (outv @ rep @ [CaughtException])"
              by (simp add: run_device_def caught_def Let_def)
            moreover have "builds (outv @ rep @ [CaughtException]) = []"
              "launches (outv @ rep @ [CaughtException]) = []"
              "reads_batch0 (outv @ rep @ [CaughtException])"
              using o p by simp_all
            ultimately show ?thesis by blast
          next
            case False
            with r nf g c1 c2 ls ok Some v rp have "ev = evg @ [Launch 0] @ (outv @ rep)"
              by (simp add: run_device_def caught_def Let_def)
            moreover have "builds (outv @ rep) = []" "launches (outv @ rep) = []"
              "reads_batch0 (outv @ rep)"
              using o p by simp_all
            ultimately show ?thesis by blast
          qed
        qed
      qed
    qed
  qed
qed

lemma run_device_events:
  fixes A :: "('f, 'd) arith" and ev :: "'d event list"
  assumes "run_device A E st nd N d = (ev, out)"
  shows "(launches ev = [] \<or> launches ev = [0]) \<and> reads_batch0 ev
       \<and> (launches ev = [0] \<longrightarrow> builds ev = [0..<d div 3])
       \<and> (\<forall>b < d div 3. env_fails E (AccelBuild b) \<longrightarrow> out = Exit 1 \<and> launches ev = [])"
proof -
  obtain evg :: "'d event list" and ok where
    g: "createGeometry (env_fails E) (d div 3) = (evg, ok)"
    by (cases "createGeometry (env_fails E) (d div 3) :: 'd event list \<times> bool")
  note G = createGeometry_events [OF g]
  show ?thesis
  proof (cases "env_fails E DeviceSetup \<or> env_fails E CreateContext")
    case True
    with assms have "ev = [CaughtException]" "out = Exit 1"
      by (auto simp: run_device_def caught_def)
    then show ?thesis by simp
  next
    case nf: False
    show ?thesis
    proof (cases ok)
      case False
      with assms nf g have "ev = evg @ [CaughtException]" "out = Exit 1"
        by (auto simp: run_device_def caught_def)
      with G show ?thesis by simp
    next
      case True
      with G have bg: "builds evg = [0..<d div 3]" and lg: "launches evg = []"
        and rg: "reads_batch0 evg" and nb: "\<forall>b < d div 3. \<not> env_fails E (AccelBuild b)"
        by auto
      from g True have g': "createGeometry (env_fails E) (d div 3) = (evg, True)" by simp
      from run_device_shape [OF assms nf g']
      show ?thesis
      proof
        assume "ev = evg @ [CaughtException] \<and> out = Exit 1 \<and> (\<exists>s. env_fails E s)"
        with bg lg rg nb show ?thesis by simp
      next
        assume "\<exists>rest. ev = evg @ [Launch 0] @ rest
                \<and> builds rest = [] \<and> launches rest = [] \<and> reads_batch0 rest"
        then obtain rest where "ev = evg @ [Launch 0] @ rest"
          "builds rest = []" "launches rest = []" "reads_batch0 rest" by blast
        with bg lg rg nb show ?thesis by simp
      qed
    qed
  qed
qed

lemma run_device_no_failure:
  fixes A :: "('f, 'd) arith" and ev :: "'d event list"
  assumes "run_device A E st nd N d = (ev, out)" and "\<forall>s. \<not> env_fails E s"
  shows "builds ev = [0..<d div 3] \<and> launches ev = [0]"
proof -
  obtain evg :: "'d event list" and ok where
    g: "createGeometry (env_fails E) (d div 3) = (evg, ok)"
    by (cases "createGeometry (env_fails E) (d div 3) :: 'd event list \<times> bool")
  note G = createGeometry_events [OF g]
  from G assms(2) have ok: ok by blast
  with G have bg: "builds evg = [0..<d div 3]" and lg: "launches evg = []" by auto
  have nf: "\<not> (env_fails E DeviceSetup \<or> env_fails E CreateContext)"
    using assms(2) by simp
  from g ok have g': "createGeometry (env_fails E) (d div 3) = (evg, True)" by simp
  from run_device_shape [OF assms(1) nf g']
  show ?thesis
  proof
    assume "ev = evg @ [CaughtException] \<and> out = Exit 1 \<and> (\<exists>s. env_fails E s)"
    with assms(2) show ?thesis by blast
  next
    assume "\<exists>rest. ev = evg @ [Launch 0] @ rest
                \<and> builds rest = [] \<and> launches rest = [] \<and> reads_batch0 rest"
    then obtain rest where "ev = evg @ [Launch 0] @ rest"
      "builds rest = []" "launches rest = []" by blast
    with bg lg show ?thesis by simp
  qed
qed

lemma read_lines_Nil: "read_lines stof [] = Inr ([], 0, 0)"
  by (simp add: read_lines_def alloc_ndpoints_def)

lemma main_after_parse:
  fixes A :: "('f, 'd) arith" and ev0 :: "'d event list"
  assumes "parse_args (env_stof E) (env_atoi E) (drop 1 argv)
             \<lparr>outfile = [], knn = 50, radius = ftwo A\<rparr> = (ev0, Inr st)"
  shows "main A E argv =
     (case read_pc_data (env_ndebug E) (env_stof E) (env_fs E) (outfile st) of
        (diag, res) \<Rightarrow>
          (let ev1 = (if diag then [CouldNotRead] else [])
           in case res of
                Inl f \<Rightarrow> (ev1, fault_outcome f)
              | Inr (nd, numPrims, dm) \<Rightarrow>
                  if int dm \<le> 0 \<or> int dm > MAX_DIM E then (ev1 @ [Usage], Exit 0)
                  else (case run_device A E st nd numPrims dm of
                          (ev2, out) \<Rightarrow> (ev1 @ ev2, out))))"
proof -
  from parse_args_Inr_no_events [OF assms] have "ev0 = []" .
  with assms show ?thesis by (simp add: main_def)
qed

text \<open>
  The run on an input file that cannot be opened: \<open>read_pc_data\<close> prints the diagnostic
  and reaches \<open>assert(0)\<close>, its only means of stopping. A build with assertions aborts
  there. In a build with \<open>NDEBUG\<close> the assertion is empty and the run goes on: no line
  is read, \<open>dim\<close> is 0, and \<open>main\<close> leaves through \<open>printUsageAndExit\<close>. In neither build
  is an index built or anything launched.
\<close>

lemma missing_file_run:
  fixes A :: "('f, 'd) arith" and ev0 :: "'d event list"
  assumes "parse_args (env_stof E) (env_atoi E) (drop 1 argv)
             \<lparr>outfile = [], knn = 50, radius = ftwo A\<rparr> = (ev0, Inr st)"
    and "env_fs E (outfile st) = None"
  shows "main A E argv
           = (if env_ndebug E then ([CouldNotRead, Usage], Exit 0) else ([CouldNotRead], Abort))
       \<and> builds (fst (main A E argv)) = [] \<and> launches (fst (main A E argv)) = []"
proof -
  have "main A E argv
           = (if env_ndebug E then ([CouldNotRead, Usage], Exit 0) else ([CouldNotRead], Abort))"
    unfolding main_after_parse [OF assms(1)]
    by (simp add: read_pc_data_def assms(2) read_lines_Nil fault_outcome_def)
  then show ?thesis by simp
qed

lemma main_run:
  fixes A :: "('f, 'd) arith" and ev0 :: "'d event list"
  assumes "parse_args (env_stof E) (env_atoi E) (drop 1 argv)
             \<lparr>outfile = [], knn = 50, radius = ftwo A\<rparr> = (ev0, Inr st)"
    and "env_fs E (outfile st) = Some rows"
    and "read_lines (env_stof E) (getlines rows) = Inr (nd, N, d)"
    and "0 < d" and "int d \<le> MAX_DIM E"
  shows "main A E argv = run_device A E st nd N d"
  unfolding main_after_parse [OF assms(1)]
  using assms(2-5) by (simp add: read_pc_data_def split: prod.splits)

lemma main_no_rows:
  fixes A :: "('f, 'd) arith" and ev0 :: "'d event list"
  assumes "parse_args (env_stof E) (env_atoi E) (drop 1 argv)
             \<lparr>outfile = [], knn = 50, radius = ftwo A\<rparr> = (ev0, Inr st)"
    and "env_fs E (outfile st) = Some rows" and "getlines rows = []"
  shows "main A E argv = ([Usage], Exit 0)"
  unfolding main_after_parse [OF assms(1)]
  using assms(2,3) by (simp add: read_pc_data_def read_lines_Nil)

text \<open>
  C8, as the code has it. Nothing in the index construction looks at the primitive count
  or at the radius. A file without lines ends the program through the usage message with
  exit code 0, before any build. Otherwise, for every radius there is, when no call into
  the device fails every batch is built and the launch is issued; and when the build of a
  batch fails, the program returns 1 and nothing is launched.
\<close>

theorem index_build_unguarded:
  fixes A :: "('f, 'd) arith" and ev0 :: "'d event list"
  assumes "parse_args (env_stof E) (env_atoi E) (drop 1 argv)
             \<lparr>outfile = [], knn = 50, radius = ftwo A\<rparr> = (ev0, Inr st)"
    and "env_fs E (outfile st) = Some rows"
  shows "(getlines rows = [] \<longrightarrow> main A E argv = ([Usage], Exit 0))
       \<and> (\<forall>nd N d. read_lines (env_stof E) (getlines rows) = Inr (nd, N, d)
              \<and> 0 < d \<and> int d \<le> MAX_DIM E \<longrightarrow>
            ((\<forall>s. \<not> env_fails E s) \<longrightarrow>
               builds (fst (main A E argv)) = [0..<d div 3]
               \<and> launches (fst (main A E argv)) = [0])
            \<and> (\<forall>b < d div 3. env_fails E (AccelBuild b) \<longrightarrow>
                  snd (main A E argv) = Exit 1 \<and> launches (fst (main A E argv)) = []))"
proof (intro conjI impI allI)
  assume "getlines rows = []"
  from main_no_rows [OF assms this] show "main A E argv = ([Usage], Exit 0)" .
next
  fix nd N d
  assume a: "read_lines (env_stof E) (getlines rows) = Inr (nd, N, d)
              \<and> 0 < d \<and> int d \<le> MAX_DIM E"
  then have m: "main A E argv = run_device A E st nd N d"
    using main_run [OF assms] by blast
  obtain ev :: "'d event list" and out where r: "run_device A E st nd N d = (ev, out)"
    by (cases "run_device A E st nd N d")
  {
    assume "\<forall>s. \<not> env_fails E s"
    from run_device_no_failure [OF r this] m r
    show "builds (fst (main A E argv)) = [0..<d div 3]" by simp
    from run_device_no_failure [OF r \<open>\<forall>s. \<not> env_fails E s\<close>] m r
    show "launches (fst (main A E argv)) = [0]" by simp
  }
  fix b assume "b < d div 3" "env_fails E (AccelBuild b)"
  with run_device_events [OF r] m r
  show "snd (main A E argv) = Exit 1" "launches (fst (main A E argv)) = []" by auto
qed

lemma main_events:
  fixes A :: "('f, 'd) arith"
  shows "(launches (fst (main A E argv)) = [] \<or> launches (fst (main A E argv)) = [0])
       \<and> reads_batch0 (fst (main A E argv))"
proof -
  obtain ev :: "'d event list" and res where
    p: "parse_args (env_stof E) (env_atoi E) (drop 1 argv)
          \<lparr>outfile = [], knn = 50, radius = ftwo A\<rparr> = (ev, res)"
    by (cases "parse_args (env_stof E) (env_atoi E) (drop 1 argv)
                 \<lparr>outfile = [], knn = 50, radius = ftwo A\<rparr> :: 'd event list \<times> _")
  note Q = parse_args_quiet [OF p]
  show ?thesis
  proof (cases res)
    case (Inl out)
    with p have "main A E argv = (ev, out)" by (simp add: main_def)
    with Q show ?thesis by simp
  next
    case (Inr st)
    note M = main_after_parse [OF p [unfolded Inr]]
    obtain diag rd where rp:
      "read_pc_data (env_ndebug E) (env_stof E) (env_fs E) (outfile st) = (diag, rd)"
      by (cases "read_pc_data (env_ndebug E) (env_stof E) (env_fs E) (outfile st)")
    define ev1 :: "'d event list" where "ev1 = (if diag then [CouldNotRead] else [])"
    have q1: "launches ev1 = []" "reads_batch0 ev1" by (simp_all add: ev1_def)
    show ?thesis
    proof (cases rd)
      case (Inl f)
      with M rp have "main A E argv = (ev1, fault_outcome f)" by (simp add: ev1_def)
      with q1 show ?thesis by simp
    next
      case (Inr x)
      obtain nd N d where x: "x = (nd, N, d)" by (cases x)
      show ?thesis
      proof (cases "int d \<le> 0 \<or> int d > MAX_DIM E")
        case True
        with M rp Inr x have "main A E argv = (ev1 @ [Usage], Exit 0)"
          by (simp add: ev1_def)
        with q1 show ?thesis by simp
      next
        case False
        obtain ev2 :: "'d event list" and out where
          r: "run_device A E st nd N d = (ev2, out)"
          by (cases "run_device A E st nd N d")
        from False M rp Inr x r have "main A E argv = (ev1 @ ev2, out)"
          by (simp add: ev1_def)
        with q1 run_device_events [OF r] show ?thesis by simp
      qed
    qed
  qed
qed

text \<open>
  C2. Every run issues at most one launch, and that for batch 0, and every coordinate the
  verification reads is of batch 0. A run that reaches its launch has built the index of
  every batch before: as many as the fields of the first line divided by 3, rounded up.
\<close>

theorem queries_batch_zero_only:
  fixes A :: "('f, 'd) arith"
  shows "(launches (fst (main A E argv)) = [] \<or> launches (fst (main A E argv)) = [0])
       \<and> reads_batch0 (fst (main A E argv))
       \<and> (\<forall>(ev0 :: 'd event list) st rows row rest.
             parse_args (env_stof E) (env_atoi E) (drop 1 argv)
                \<lparr>outfile = [], knn = 50, radius = ftwo A\<rparr> = (ev0, Inr st)
             \<and> env_fs E (outfile st) = Some rows \<and> getlines rows = row # rest
             \<and> length (getlines rows) < 2 ^ 32
             \<and> launches (fst (main A E argv)) = [0]
             \<longrightarrow> builds (fst (main A E argv)) = [0..<(length (row_fields row) + 2) div 3])"
proof (intro conjI allI impI)
  show "launches (fst (main A E argv)) = [] \<or> launches (fst (main A E argv)) = [0]"
    using main_events [of A E argv] by blast
  show "reads_batch0 (fst (main A E argv))"
    using main_events [of A E argv] by blast
next
  fix ev0 :: "'d event list" and st rows row rest
  assume a: "parse_args (env_stof E) (env_atoi E) (drop 1 argv)
                \<lparr>outfile = [], knn = 50, radius = ftwo A\<rparr> = (ev0, Inr st)
             \<and> env_fs E (outfile st) = Some rows \<and> getlines rows = row # rest
             \<and> length (getlines rows) < 2 ^ 32
             \<and> launches (fst (main A E argv)) = [0]"
  then have p: "parse_args (env_stof E) (env_atoi E) (drop 1 argv)
                \<lparr>outfile = [], knn = 50, radius = ftwo A\<rparr> = (ev0, Inr st)"
    and f: "env_fs E (outfile st) = Some rows" and g: "getlines rows = row # rest"
    and b0: "length (getlines rows) < 2 ^ 32" and l: "launches (fst (main A E argv)) = [0]"
    by blast+
  from b0 g have b: "length (row # rest) < 2 ^ 32" by simp
  note M = main_after_parse [OF p]
  have rp: "read_pc_data (env_ndebug E) (env_stof E) (env_fs E) (outfile st)
              = (False, read_lines (env_stof E) (row # rest))"
    using f g by (simp add: read_pc_data_def)
  show "builds (fst (main A E argv)) = [0..<(length (row_fields row) + 2) div 3]"
  proof (cases "read_lines (env_stof E) (row # rest)")
    case (Inl e)
    with M rp have "main A E argv = ([], fault_outcome e)" by simp
    with l show ?thesis by simp
  next
    case (Inr x)
    obtain nd N d where x: "x = (nd, N, d)" by (cases x)
    from read_lines_result [OF Inr [unfolded x] b]
    have d: "d = pad3 (length (row_fields row))" by simp
    show ?thesis
    proof (cases "int d \<le> 0 \<or> int d > MAX_DIM E")
      case True
      with M rp Inr x have "main A E argv = ([Usage], Exit 0)" by simp
      with l show ?thesis by simp
    next
      case False
      obtain ev2 :: "'d event list" and out where
        r: "run_device A E st nd N d = (ev2, out)"
        by (cases "run_device A E st nd N d")
      from False M rp Inr x r have m: "main A E argv = (ev2, out)" by simp
      with l have "launches ev2 = [0]" by simp
      with run_device_events [OF r] have "builds ev2 = [0..<d div 3]" by blast
      with m d show ?thesis by (simp add: pad3_div)
    qed
  qed
qed

lemma eval_parse_missing:
  "parse_args (env_stof (demo_env (\<lambda>_. None) nd 3 (\<lambda>_. []))) (env_atoi (demo_env (\<lambda>_. None) nd 3 (\<lambda>_. [])))
     (drop 1 [''prog'', ''-f'', ''missing.csv''])
     \<lparr>outfile = [], knn = 50, radius = ftwo real_arith\<rparr>
   = (([] :: real event list), Inr \<lparr>outfile = ''missing.csv'', knn = 50, radius = 2\<rparr>)"
  by (simp add: demo_env_def parse_args.simps real_arith_def)

lemma missing_file_run_assert_build:
  "main real_arith (demo_env (\<lambda>_. None) False 3 (\<lambda>_. [])) [''prog'', ''-f'', ''missing.csv'']
     = ([CouldNotRead], Abort)
   \<and> launches (fst (main real_arith (demo_env (\<lambda>_. None) False 3 (\<lambda>_. []))
                      [''prog'', ''-f'', ''missing.csv''])) = []"
proof -
  have f: "env_fs (demo_env (\<lambda>_. None) False 3 (\<lambda>_. []))
             (outfile \<lparr>outfile = ''missing.csv'', knn = 50, radius = (2 :: real)\<rparr>) = None"
    by (simp add: demo_env_def)
  from missing_file_run [OF eval_parse_missing f]
  show ?thesis by (simp add: demo_env_def)
qed

text \<open>
  C7. The program compiled with \<open>NDEBUG\<close> and run as \<open>prog -f missing.csv\<close> on a file
  that cannot be opened: it prints the diagnostic of \<open>read_pc_data\<close>, then the usage
  message, and exits with code 0. The failure is not fatal and the exit code does not
  signal it: the error handling of \<open>read_pc_data\<close> is an \<open>assert\<close>, which this build
  compiles away.
\<close>

theorem missing_file_ndebug_exit_zero:
  "main real_arith (demo_env (\<lambda>_. None) True 3 (\<lambda>_. [])) [''prog'', ''-f'', ''missing.csv'']
     = ([CouldNotRead, Usage], Exit 0)"
  unfolding main_after_parse [OF eval_parse_missing]
  by (simp add: demo_env_def read_pc_data_def read_lines_Nil)

lemma eval_parse_negative:
  "parse_args (env_stof (demo_env one_row_file False 3 (\<lambda>_. [])))
     (env_atoi (demo_env one_row_file False 3 (\<lambda>_. [])))
     (drop 1 [''prog'', ''-f'', ''points.csv'', ''-r'', ''-1'', ''-k'', ''1''])
     \<lparr>outfile = [], knn = 50, radius = ftwo real_arith\<rparr>
   = (([] :: real event list), Inr \<lparr>outfile = ''points.csv'', knn = 1, radius = - 1\<rparr>)"
  by (simp add: demo_env_def parse_args.simps real_arith_def stof_lit_def atoi_lit_def)

lemma eval_read_one_row:
  "read_lines stof_lit (getlines [''1,2,3'']) = Inr ([[(Some 1, Some 2, Some 3)]], 1, 3)"
  by (simp add: getlines_def read_lines_def alloc_ndpoints_def
        tokenize_def scan_fields_def tok_loop.simps find_str_def substr_def stof_lit_def pad3_def
        batch_point_def make_float3_def vget_def upt_rec)

lemma eval_run_negative:
  "run_device real_arith (demo_env one_row_file False 3 (\<lambda>_. []))
     \<lparr>outfile = ''points.csv'', knn = 1, radius = - 1\<rparr> [[(Some 1, Some 2, Some 3)]] 1 3
   = ([BuildGas 0, Launch 0, EndRow, SanityDone, AvgNeighbors 0, AvgWrong 0], Exit 0)"
proof -
  have g: "createGeometry (\<lambda>_. False) (Suc 0) = ([BuildGas 0 :: real event], True)"
    by (simp add: createGeometry_def upt_rec)
  have d: "launchSubframe (\<lambda>_. False) (\<lambda>_. []) (alloc_output (\<lambda>_. 0) 1) 1 1 0
             = ([Launch 0 :: real event], Some [UINT_MAX])"
    by (simp add: launchSubframe_def alloc_output_def cudaMemset_def upt_rec word_of4_ff
          optixLaunch_def)
  have v: "verify real_arith [[(Some 1, Some 2, Some 3)]] (- 1) [UINT_MAX] 1 1
             = Some (\<lparr>totalNeighbors = 0, totalWrongNeighbors = 0, totalWrongDist = 0\<rparr>,
                     [EndRow])"
    by (simp add: verify_def slot_def real_arith_def)
  have r: "report real_arith 1 \<lparr>totalNeighbors = 0, totalWrongNeighbors = 0, totalWrongDist = 0\<rparr>
             = Some [SanityDone, AvgNeighbors 0, AvgWrong 0]"
    by (simp add: report_def)
  show ?thesis
    using d by (simp add: run_device_def demo_env_def g v r)
qed

theorem negative_radius_counterexample:
  "main real_arith (demo_env one_row_file False 3 (\<lambda>_. []))
     [''prog'', ''-f'', ''points.csv'', ''-r'', ''-1'', ''-k'', ''1'']
     = ([BuildGas 0, Launch 0, EndRow, SanityDone, AvgNeighbors 0, AvgWrong 0], Exit 0)"
proof -
  have f: "env_fs (demo_env one_row_file False 3 (\<lambda>_. []))
             (outfile \<lparr>outfile = ''points.csv'', knn = 1, radius = (- 1 :: real)\<rparr>)
             = Some [''1,2,3'']"
    by (simp add: demo_env_def one_row_file_def)
  have r: "read_lines (env_stof (demo_env one_row_file False 3 (\<lambda>_. []))) (getlines [''1,2,3''])
             = Inr ([[(Some 1, Some 2, Some 3)]], 1, 3)"
    using eval_read_one_row by (simp add: demo_env_def)
  have m: "int 3 \<le> MAX_DIM (demo_env one_row_file False 3 (\<lambda>_. []))"
    by (simp add: demo_env_def)
  from main_run [OF eval_parse_negative f r _ m] show ?thesis
    by (simp add: eval_run_negative)
qed

theorem index_build_unguarded_witness:
  "builds (fst (main real_arith (demo_env one_row_file False 3 (\<lambda>_. []))
                  [''prog'', ''-f'', ''points.csv'', ''-r'', ''-1'', ''-k'', ''1'']))
     = [0..<3 div 3]
   \<and> launches (fst (main real_arith (demo_env one_row_file False 3 (\<lambda>_. []))
                      [''prog'', ''-f'', ''points.csv'', ''-r'', ''-1'', ''-k'', ''1'']))
     = [0]"
proof -
  have f: "env_fs (demo_env one_row_file False 3 (\<lambda>_. []))
             (outfile \<lparr>outfile = ''points.csv'', knn = 1, radius = (- 1 :: real)\<rparr>)
             = Some [''1,2,3'']"
    by (simp add: demo_env_def one_row_file_def)
  have r: "read_lines (env_stof (demo_env one_row_file False 3 (\<lambda>_. []))) (getlines [''1,2,3''])
             = Inr ([[(Some 1, Some 2, Some 3)]], 1, 3)
           \<and> 0 < (3 :: nat) \<and> int 3 \<le> MAX_DIM (demo_env one_row_file False 3 (\<lambda>_. []))"
    using eval_read_one_row by (simp add: demo_env_def)
  have n: "\<forall>s. \<not> env_fails (demo_env one_row_file False 3 (\<lambda>_. [])) s"
    by (simp add: demo_env_def)
  from index_build_unguarded [OF eval_parse_negative f] r n show ?thesis by blast
qed

lemma eval_parse_two_batch:
  "parse_args (env_stof (demo_env two_batch_file False 6 each_other))
     (env_atoi (demo_env two_batch_file False 6 each_other))
     (drop 1 [''prog'', ''-f'', ''points.csv'', ''-k'', ''1''])
     \<lparr>outfile = [], knn = 50, radius = ftwo real_arith\<rparr>
   = (([] :: real event list), Inr \<lparr>outfile = ''points.csv'', knn = 1, radius = 2\<rparr>)"
  by (simp add: demo_env_def parse_args.simps real_arith_def atoi_lit_def)

lemma eval_read_two_batch:
  "read_lines stof_lit (getlines [''1,2,3,4,5,6'', ''1,2,4,4,5,6''])
     = Inr ([[(Some 1, Some 2, Some 3), (Some 1, Some 2, Some 4)],
             [(Some 4, Some 5, Some 6), (Some 4, Some 5, Some 6)]], 2, 6)"
  by (simp add: getlines_def read_lines_def alloc_ndpoints_def
        tokenize_def scan_fields_def tok_loop.simps find_str_def substr_def stof_lit_def pad3_def
        batch_point_def make_float3_def vget_def upt_rec replicate2)

lemma eval_run_two_batch:
  "run_device real_arith (demo_env two_batch_file False 6 each_other)
     \<lparr>outfile = ''points.csv'', knn = 1, radius = 2\<rparr>
     [[(Some 1, Some 2, Some 3), (Some 1, Some 2, Some 4)],
      [(Some 4, Some 5, Some 6), (Some 4, Some 5, Some 6)]] 2 6
   = ([BuildGas 0, BuildGas 1, Launch 0,
       ReadPoints 0 1 0, PrintIndex 1, EndRow, ReadPoints 0 0 1, PrintIndex 0, EndRow,
       SanityDone, AvgNeighbors 1, AvgWrong 0], Exit 0)"
proof -
  have g: "createGeometry (\<lambda>_. False) 2 = ([BuildGas 0, BuildGas 1 :: real event], True)"
    by (simp add: createGeometry_def upt_rec)
  have d: "launchSubframe (\<lambda>_. False) each_other (alloc_output (\<lambda>_. 0) 2) 2 1 0
             = ([Launch 0 :: real event], Some [1, 0])"
    by (simp add: launchSubframe_def alloc_output_def cudaMemset_def upt_rec word_of4_ff
          optixLaunch_def each_other_def)
  have v: "verify real_arith [[(Some 1, Some 2, Some 3), (Some 1, Some 2, Some 4)],
              [(Some 4, Some 5, Some 6), (Some 4, Some 5, Some 6)]] 2 [1, 0] 1 2
             = Some (\<lparr>totalNeighbors = 2, totalWrongNeighbors = 0, totalWrongDist = 0\<rparr>,
                     [ReadPoints 0 1 0, PrintIndex 1, EndRow,
                      ReadPoints 0 0 1, PrintIndex 0, EndRow])"
    by (simp add: verify_def query_loop_numeral row_loop_numeral slot_def UINT_MAX_def
          point_at_def account_def dist2_def sub3_def dot_def real_arith_def)
  have r: "report real_arith 2 \<lparr>totalNeighbors = 2, totalWrongNeighbors = 0, totalWrongDist = 0\<rparr>
             = Some [SanityDone, AvgNeighbors 1, AvgWrong 0]"
    by (simp add: report_def)
  show ?thesis
    using d by (simp add: run_device_def demo_env_def g v r)
qed

theorem queries_batch_zero_only_witness:
  "launches (fst (main real_arith (demo_env two_batch_file False 6 each_other)
                    [''prog'', ''-f'', ''points.csv'', ''-k'', ''1''])) = [0]
   \<and> reads_batch0 (fst (main real_arith (demo_env two_batch_file False 6 each_other)
                          [''prog'', ''-f'', ''points.csv'', ''-k'', ''1'']))
   \<and> builds (fst (main real_arith (demo_env two_batch_file False 6 each_other)
                     [''prog'', ''-f'', ''points.csv'', ''-k'', ''1'']))
       = [0..<(length (row_fields ''1,2,3,4,5,6'') + 2) div 3]
   \<and> (length (row_fields ''1,2,3,4,5,6'') + 2) div 3 = 2"
proof -
  let ?E = "demo_env two_batch_file False 6 each_other"
  let ?argv = "[''prog'', ''-f'', ''points.csv'', ''-k'', ''1'']"
  have f: "env_fs ?E (outfile \<lparr>outfile = ''points.csv'', knn = 1, radius = (2 :: real)\<rparr>)
             = Some [''1,2,3,4,5,6'', ''1,2,4,4,5,6'']"
    by (simp add: demo_env_def two_batch_file_def)
  have r: "read_lines (env_stof ?E) (getlines [''1,2,3,4,5,6'', ''1,2,4,4,5,6''])
             = Inr ([[(Some 1, Some 2, Some 3), (Some 1, Some 2, Some 4)],
                     [(Some 4, Some 5, Some 6), (Some 4, Some 5, Some 6)]], 2, 6)"
    using eval_read_two_batch by (simp add: demo_env_def)
  have m: "int 6 \<le> MAX_DIM ?E" by (simp add: demo_env_def)
  from main_run [OF eval_parse_two_batch f r _ m]
  have run: "main real_arith ?E ?argv
               = ([BuildGas 0, BuildGas 1, Launch 0,
                   ReadPoints 0 1 0, PrintIndex 1, EndRow, ReadPoints 0 0 1, PrintIndex 0, EndRow,
                   SanityDone, AvgNeighbors 1, AvgWrong 0], Exit 0)"
    by (simp add: eval_run_two_batch)
  have l: "launches (fst (main real_arith ?E ?argv)) = [0]" by (simp add: run)
  have g: "getlines [''1,2,3,4,5,6'', ''1,2,4,4,5,6''] = ''1,2,3,4,5,6'' # [''1,2,4,4,5,6'']"
    by (simp add: getlines_def)
  have b: "length (getlines [''1,2,3,4,5,6'', ''1,2,4,4,5,6'']) < 2 ^ 32"
    by (simp add: getlines_def)
  note T = queries_batch_zero_only [of real_arith ?E ?argv]
  from T have rb: "reads_batch0 (fst (main real_arith ?E ?argv))" by blast
  from T eval_parse_two_batch f g b l
  have "builds (fst (main real_arith ?E ?argv))
          = [0..<(length (row_fields ''1,2,3,4,5,6'') + 2) div 3]"
    by blast
  with l rb show ?thesis by simp
qed

end
